theory Spec2Isabelle
  imports
    Complex_Main
    "HOL-Library.AList"
    "HOL-Library.Multiset"
    "HOL-Library.Sublist"
    "HOL-Library.Char_ord"
    "HOL-Library.List_Lexorder"
    "HOL-Library.Product_Lexorder"
begin

section \<open>Data model of movie\_recommender.py\<close>

text \<open>
  Conventions of the embedding.
  \<^item> A Python \<open>dict\<close> is an association list in insertion order; \<open>d[k] = v\<close> is
    \<open>AList.update k v d\<close> (an existing key keeps its position, a new key goes to the end)
    and \<open>d.get(k)\<close> is \<open>map_of d k\<close>.
  \<^item> A Python \<open>set\<close> of names is a list without repetition, in insertion order. Python
    fixes no iteration order for a set; the ranking functions sort their rows afterwards.
  \<^item> A Python \<open>float\<close> rating is a real number and \<open>statistics.fmean\<close> is the exact
    mean: rounding is not modelled.
  \<^item> A text line is a \<open>string\<close>; a character stands for a code point below 256.
  \<^item> The built-in \<open>float(text)\<close> is a parameter \<open>pf\<close> of the loader: \<open>pf text = None\<close>
    stands for \<open>ValueError\<close>, and also for the results \<open>nan\<close>, \<open>inf\<close> and \<open>-inf\<close>, which
    the loader's range check rejects on the next line in any case.
\<close>

record movie =
  genre :: string
  movie_id :: string
  name :: string

type_synonym ranked_row = "string \<times> real \<times> nat"

record data_store =
  movies_by_name :: "(string \<times> movie) list"
  movies_by_genre :: "(string \<times> string list) list"
  ratings_by_movie :: "(string \<times> real list) list"
  user_ratings :: "(string \<times> (string \<times> real) list) list"

definition empty_store :: data_store where
  "empty_store = \<lparr>movies_by_name = [], movies_by_genre = [], ratings_by_movie = [], user_ratings = []\<rparr>"

definition clear :: "data_store \<Rightarrow> data_store" where
  "clear s = empty_store"

subsection \<open>Dictionary and set helpers\<close>

definition dict_get :: "('k \<times> 'v) list \<Rightarrow> 'k \<Rightarrow> 'v \<Rightarrow> 'v" where
  "dict_get d k dflt = (case map_of d k of None \<Rightarrow> dflt | Some v \<Rightarrow> v)"

definition set_add :: "'a \<Rightarrow> 'a list \<Rightarrow> 'a list" where
  "set_add x xs = (if x \<in> set xs then xs else xs @ [x])"

definition fmean :: "real list \<Rightarrow> real" where
  "fmean xs = sum_list xs / real (length xs)"

subsection \<open>Text helpers\<close>

definition strip_inline_comment :: "string \<Rightarrow> string" where
  "strip_inline_comment line =
     (if CHR ''#'' \<in> set line then takeWhile (\<lambda>c. c \<noteq> CHR ''#'') line else line)"

definition is_space :: "char \<Rightarrow> bool" where
  "is_space c = (let n = (of_char c :: nat) in
     (9 \<le> n \<and> n \<le> 13) \<or> (28 \<le> n \<and> n \<le> 32) \<or> n = 133 \<or> n = 160)"

definition strip :: "string \<Rightarrow> string" where
  "strip s = rev (dropWhile is_space (rev (dropWhile is_space s)))"

fun split_on :: "char \<Rightarrow> string \<Rightarrow> string list" where
  "split_on d [] = [[]]"
| "split_on d (c # cs) =
     (if c = d then [] # split_on d cs
      else (case split_on d cs of [] \<Rightarrow> [[c]] | p # ps \<Rightarrow> (c # p) # ps))"

section \<open>Loader\<close>

text \<open>The body of the loop of \<open>load_movies_file\<close> up to the construction of the
  \<open>Movie\<close>: \<open>None\<close> is a \<open>continue\<close>.\<close>

definition movie_row :: "string \<Rightarrow> movie option" where
  "movie_row raw =
     (let line = strip (strip_inline_comment raw) in
      if line = [] then None
      else let parts = split_on (CHR ''|'') line in
        if length parts \<noteq> 3 then None
        else (case map strip parts of
                [g, mid, nm] \<Rightarrow>
                  if g = [] \<or> mid = [] \<or> nm = [] then None
                  else Some \<lparr>genre = g, movie_id = mid, name = nm\<rparr>
              | _ \<Rightarrow> None))"

text \<open>The two stores at the end of the loop body: \<open>store.movies_by_name[movie_name] = m\<close>
  and \<open>store.movies_by_genre.setdefault(genre, set()).add(movie_name)\<close>.\<close>

definition store_movie :: "movie \<Rightarrow> data_store \<Rightarrow> data_store" where
  "store_movie m s =
     s\<lparr>movies_by_name := AList.update (name m) m (movies_by_name s),
       movies_by_genre :=
         AList.update (genre m)
           (set_add (name m) (dict_get (movies_by_genre s) (genre m) []))
           (movies_by_genre s)\<rparr>"

definition load_movies_line :: "string \<Rightarrow> data_store \<times> nat \<Rightarrow> data_store \<times> nat" where
  "load_movies_line raw sc =
     (case movie_row raw of
        None \<Rightarrow> sc
      | Some m \<Rightarrow> (store_movie m (fst sc), snd sc + 1))"

definition load_movies_file :: "string list \<Rightarrow> data_store \<Rightarrow> nat \<times> data_store" where
  "load_movies_file lines s =
     (let r = fold load_movies_line lines (s\<lparr>movies_by_name := [], movies_by_genre := []\<rparr>, 0)
      in (snd r, fst r))"

text \<open>The body of the first loop of \<open>load_ratings_file\<close> up to the range check; the
  row is \<open>(movie_name, rating, user_id)\<close>.\<close>

definition rating_row :: "(string \<Rightarrow> real option) \<Rightarrow> string \<Rightarrow> (string \<times> real \<times> string) option" where
  "rating_row pf raw =
     (let line = strip (strip_inline_comment raw) in
      if line = [] then None
      else let parts = split_on (CHR ''|'') line in
        if length parts \<noteq> 3 then None
        else (case map strip parts of
                [movie_name, rating_str, user_id] \<Rightarrow>
                  (case pf rating_str of
                     None \<Rightarrow> None
                   | Some rating \<Rightarrow>
                       if \<not> (0 \<le> rating \<and> rating \<le> 5) then None
                       else Some (movie_name, rating, user_id))
              | _ \<Rightarrow> None))"

text \<open>The store at the end of the loop body:
  \<open>store.user_ratings.setdefault(user_id, {})[movie_name] = rating\<close>.\<close>

definition store_rating ::
  "string \<times> real \<times> string \<Rightarrow> (string \<times> (string \<times> real) list) list
     \<Rightarrow> (string \<times> (string \<times> real) list) list" where
  "store_rating row ur =
     (case row of (movie_name, rating, user_id) \<Rightarrow>
        AList.update user_id (AList.update movie_name rating (dict_get ur user_id [])) ur)"

definition load_ratings_line ::
  "(string \<Rightarrow> real option) \<Rightarrow> string \<Rightarrow> (string \<times> (string \<times> real) list) list
     \<Rightarrow> (string \<times> (string \<times> real) list) list" where
  "load_ratings_line pf raw ur =
     (case rating_row pf raw of
        None \<Rightarrow> ur
      | Some row \<Rightarrow> store_rating row ur)"

text \<open>The second loop of \<open>load_ratings_file\<close>: the inner loop over one user's ratings,
  then the outer loop over the users.\<close>

definition add_rating ::
  "(string \<times> movie) list \<Rightarrow> string \<times> real \<Rightarrow> (string \<times> real list) list \<Rightarrow> (string \<times> real list) list" where
  "add_rating mbn mr rbm =
     (if fst mr \<in> fst ` set mbn
      then AList.update (fst mr) (dict_get rbm (fst mr) [] @ [snd mr]) rbm
      else rbm)"

definition build_ratings_by_movie ::
  "(string \<times> movie) list \<Rightarrow> (string \<times> (string \<times> real) list) list \<Rightarrow> (string \<times> real list) list" where
  "build_ratings_by_movie mbn ur =
     fold (\<lambda>(user_id, per_user) rbm. fold (add_rating mbn) per_user rbm) ur []"

definition load_ratings_file ::
  "(string \<Rightarrow> real option) \<Rightarrow> string list \<Rightarrow> data_store \<Rightarrow> nat \<times> data_store" where
  "load_ratings_file pf lines s =
     (let ur = fold (load_ratings_line pf) lines [];
          rbm = build_ratings_by_movie (movies_by_name s) ur;
          unique_pairs = sum_list (map (\<lambda>(user_id, per_user). length per_user) ur)
      in (unique_pairs, s\<lparr>ratings_by_movie := rbm, user_ratings := ur\<rparr>))"

section \<open>Analytics\<close>

definition movie_average_rating :: "data_store \<Rightarrow> string \<Rightarrow> real option" where
  "movie_average_rating s movie_name =
     (let ratings = dict_get (ratings_by_movie s) movie_name [] in
      if ratings = [] then None else Some (fmean ratings))"

text \<open>The sort key \<open>(-t[1], -t[2], t[0])\<close>, compared as Python compares tuples.\<close>

definition rank_key :: "ranked_row \<Rightarrow> real \<times> int \<times> string" where
  "rank_key t = (- fst (snd t), - int (snd (snd t)), fst t)"

text \<open>The slice \<open>xs[:n]\<close>, with \<open>None\<close> for the branch that returns the whole list. A
  negative bound counts from the end.\<close>

definition slice_to :: "'a list \<Rightarrow> int option \<Rightarrow> 'a list" where
  "slice_to xs n =
     (case n of
        None \<Rightarrow> xs
      | Some k \<Rightarrow> if 0 \<le> k then take (nat k) xs else take (length xs - nat (- k)) xs)"

fun average_items :: "data_store \<Rightarrow> string list \<Rightarrow> ranked_row list" where
  "average_items s [] = []"
| "average_items s (nm # rest) =
     (let ratings = dict_get (ratings_by_movie s) nm [] in
      if ratings = [] then average_items s rest
      else (nm, fmean ratings, length ratings) # average_items s rest)"

definition rank_movies_by_average ::
  "data_store \<Rightarrow> string list option \<Rightarrow> int option \<Rightarrow> ranked_row list" where
  "rank_movies_by_average s movie_names n =
     (let candidates = (case movie_names of Some ns \<Rightarrow> ns | None \<Rightarrow> map fst (ratings_by_movie s));
          items = average_items s candidates
      in slice_to (sort_key rank_key items) n)"

definition rank_movies_in_genre :: "data_store \<Rightarrow> string \<Rightarrow> int option \<Rightarrow> ranked_row list" where
  "rank_movies_in_genre s g n =
     (let genre_movies = dict_get (movies_by_genre s) g [] in
      if genre_movies = [] then [] else rank_movies_by_average s (Some genre_movies) n)"

fun genre_items :: "data_store \<Rightarrow> (string \<times> string list) list \<Rightarrow> ranked_row list" where
  "genre_items s [] = []"
| "genre_items s ((g, movie_names) # rest) =
     (let avgs = List.map_filter (movie_average_rating s) movie_names in
      if avgs = [] then genre_items s rest
      else (g, fmean avgs, length avgs) # genre_items s rest)"

definition rank_genres_by_popularity :: "data_store \<Rightarrow> int option \<Rightarrow> ranked_row list" where
  "rank_genres_by_popularity s n =
     slice_to (sort_key rank_key (genre_items s (movies_by_genre s))) n"

section \<open>Recommender\<close>

definition group_rating ::
  "(string \<times> movie) list \<Rightarrow> string \<times> real \<Rightarrow> (string \<times> real list) list \<Rightarrow> (string \<times> real list) list" where
  "group_rating mbn nr by_genre =
     (case map_of mbn (fst nr) of
        None \<Rightarrow> by_genre
      | Some m \<Rightarrow> AList.update (genre m) (dict_get by_genre (genre m) [] @ [snd nr]) by_genre)"

definition user_top_genre :: "data_store \<Rightarrow> string \<Rightarrow> ranked_row option" where
  "user_top_genre s user_id =
     (case map_of (user_ratings s) user_id of
        None \<Rightarrow> None
      | Some per_user \<Rightarrow>
          if per_user = [] then None
          else let by_genre = fold (group_rating (movies_by_name s)) per_user [] in
            if by_genre = [] then None
            else (case sort_key rank_key (map (\<lambda>(g, ratings). (g, fmean ratings, length ratings)) by_genre) of
                    [] \<Rightarrow> None
                  | r # _ \<Rightarrow> Some r))"

fun collect_recs ::
  "string list \<Rightarrow> string \<Rightarrow> int \<Rightarrow> ranked_row list \<Rightarrow> (string \<times> real \<times> nat \<times> string) list
     \<Rightarrow> (string \<times> real \<times> nat \<times> string) list" where
  "collect_recs rated g k [] recs = recs"
| "collect_recs rated g k ((nm, avg, cnt) # rest) recs =
     (if nm \<in> set rated then collect_recs rated g k rest recs
      else let recs' = recs @ [(nm, avg, cnt, g)] in
        if k \<le> int (length recs') then recs' else collect_recs rated g k rest recs')"

definition recommend_for_user ::
  "data_store \<Rightarrow> string \<Rightarrow> int \<Rightarrow> (string \<times> real \<times> nat \<times> string) list" where
  "recommend_for_user s user_id k =
     (case user_top_genre s user_id of
        None \<Rightarrow> []
      | Some top_row \<Rightarrow>
          (let g = fst top_row;
               rated = map fst (dict_get (user_ratings s) user_id []);
               ranked = rank_movies_in_genre s g None
           in collect_recs rated g k ranked []))"

section \<open>The store-passing interface\<close>

text \<open>
  The operations that the menu of \<open>main\<close> dispatches to, with the store passed explicitly:
  the two loaders and \<open>clear\<close> return the store they leave behind; a query reads the store
  and hands it on. The prompts of the menu and its \<open>require_loaded\<close> check are not part of
  this interface.
\<close>

datatype command =
    LoadMovies "string list"
  | LoadRatings "string list"
  | Clear
  | TopMovies "int option"
  | TopMoviesInGenre string "int option"
  | TopGenres "int option"
  | UserTopGenre string
  | Recommend string int

datatype response =
    Count nat
  | Cleared
  | Ranked "ranked_row list"
  | Preferred "ranked_row option"
  | Recommended "(string \<times> real \<times> nat \<times> string) list"

fun run :: "(string \<Rightarrow> real option) \<Rightarrow> command \<Rightarrow> data_store \<Rightarrow> response \<times> data_store" where
  "run pf (LoadMovies lines) s = (let r = load_movies_file lines s in (Count (fst r), snd r))"
| "run pf (LoadRatings lines) s = (let r = load_ratings_file pf lines s in (Count (fst r), snd r))"
| "run pf Clear s = (Cleared, clear s)"
| "run pf (TopMovies n) s = (Ranked (rank_movies_by_average s None n), s)"
| "run pf (TopMoviesInGenre g n) s = (Ranked (rank_movies_in_genre s g n), s)"
| "run pf (TopGenres n) s = (Ranked (rank_genres_by_popularity s n), s)"
| "run pf (UserTopGenre u) s = (Preferred (user_top_genre s u), s)"
| "run pf (Recommend u k) s = (Recommended (recommend_for_user s u k), s)"

definition run_all :: "(string \<Rightarrow> real option) \<Rightarrow> command list \<Rightarrow> data_store \<Rightarrow> data_store" where
  "run_all pf cmds s = fold (\<lambda>c t. snd (run pf c t)) cmds s"

section \<open>Concrete inputs\<close>

text \<open>A stand-in for \<open>float\<close> on the concrete inputs below: it reads a non-empty run of
  ASCII digits as Python does and rejects every other text.\<close>

definition float_of_digits :: "string \<Rightarrow> real option" where
  "float_of_digits t =
     (if t \<noteq> [] \<and> list_all (\<lambda>c. CHR ''0'' \<le> c \<and> c \<le> CHR ''9'') t
      then Some (real (foldl (\<lambda>a c. 10 * a + (of_char c - 48)) 0 t))
      else None)"

text \<open>The fixture files of \<open>build_good_fixtures\<close> in test\_movie\_recommender.py.\<close>

definition fixture_movies :: "string list" where
  "fixture_movies =
     [''# genre|movie_id|movie_name'',
      ''Action|m1|Alpha (2001)'',
      ''Action|m2|Bravo (1999)'',
      ''Drama|m3|Charlie (2010)'',
      ''Drama|m4|Delta (2011)'',
      ''Comedy|m5|Echo (2005)'',
      ''Comedy|m6|Foxtrot (2007)'']"

definition fixture_ratings :: "string list" where
  "fixture_ratings =
     [''# movie_name|rating|user_id'',
      ''Alpha (2001)|5|u1'',
      ''Alpha (2001)|4|u2'',
      ''Bravo (1999)|2|u1'',
      ''Bravo (1999)|4|u1   # overwrite u1's rating to 4 (last wins)'',
      ''Bravo (1999)|4|u3'',
      ''Charlie (2010)|5|u1'',
      ''Charlie (2010)|5|u2'',
      ''Charlie (2010)|1|u3'',
      ''Delta (2011)|3|u2'',
      ''Foxtrot (2007)|4|u2'',
      ''Foxtrot (2007)|5|u3'',
      ''Ghost (2012)|5|u1   # not in movies file'']"

definition fixture_store :: data_store where
  "fixture_store =
     snd (load_ratings_file float_of_digits fixture_ratings
            (snd (load_movies_file fixture_movies empty_store)))"

section \<open>Notions of the specification\<close>

text \<open>The rows of an input that the loaders accept, in input order.\<close>

definition accepted_movies :: "string list \<Rightarrow> movie list" where
  "accepted_movies lines = List.map_filter movie_row lines"

definition accepted_ratings :: "(string \<Rightarrow> real option) \<Rightarrow> string list \<Rightarrow> (string \<times> real \<times> string) list" where
  "accepted_ratings pf lines = List.map_filter (rating_row pf) lines"

text \<open>The invariant of the specification for one movie name \<open>n\<close>: if \<open>n\<close> is a key of
  \<open>movies_by_name\<close>, the values of \<open>ratings_by_movie[n]\<close> (none when there is no entry) are,
  as a multiset, the values \<open>user_ratings[u][n]\<close> of the users \<open>u\<close> that rated \<open>n\<close>;
  otherwise \<open>n\<close> has no entry in \<open>ratings_by_movie\<close>.\<close>

definition ratings_entry_ok :: "data_store \<Rightarrow> string \<Rightarrow> bool" where
  "ratings_entry_ok s n =
     (if n \<in> fst ` set (movies_by_name s)
      then mset (dict_get (ratings_by_movie s) n []) =
           mset (List.map_filter (\<lambda>(user_id, per_user). map_of per_user n) (user_ratings s))
      else map_of (ratings_by_movie s) n = None)"

text \<open>Every rating value held by the store lies in the interval from 0 to 5.\<close>

definition ratings_in_range :: "data_store \<Rightarrow> bool" where
  "ratings_in_range s =
     (list_all (\<lambda>(user_id, per_user). list_all (\<lambda>(movie_name, r). 0 \<le> r \<and> r \<le> 5) per_user)
        (user_ratings s)
      \<and> list_all (\<lambda>(movie_name, ratings). list_all (\<lambda>r. 0 \<le> r \<and> r \<le> 5) ratings)
          (ratings_by_movie s))"

text \<open>The pairs \<open>(user_id, movie_name)\<close> that have a rating in \<open>user_ratings\<close>.\<close>

definition rated_pairs :: "(string \<times> (string \<times> real) list) list \<Rightarrow> (string \<times> string) set" where
  "rated_pairs ur = {(u, m). map_of (dict_get ur u []) m \<noteq> None}"

text \<open>The ratings held in \<open>user_ratings\<close>, as rows \<open>(movie_name, rating, user_id)\<close>.\<close>

definition rating_rows :: "(string \<times> (string \<times> real) list) list \<Rightarrow> (string \<times> real \<times> string) list" where
  "rating_rows ur =
     concat (map (\<lambda>(user_id, per_user). map (\<lambda>(movie_name, r). (movie_name, r, user_id)) per_user) ur)"

section \<open>The queries on a heap of objects\<close>

text \<open>
  The functions of the sections Analytics and Recommender return values and cannot change
  the store. To state what a query does to the objects of the program, the five queries are
  given here a second time, statement by statement, over a heap: every \<open>dict\<close>, \<open>set\<close> and
  \<open>list\<close> is an object at an address, a variable holds an address, and \<open>append\<close>,
  \<open>sort\<close> and \<open>setdefault\<close> overwrite the object at the address they are called on.
  \<^item> The \<open>DataStore\<close> is an object with four attributes, the addresses of its four
    dictionaries; the values of \<open>movies_by_genre\<close>, \<open>ratings_by_movie\<close> and \<open>user_ratings\<close>
    are addresses of sets, lists and dictionaries. A \<open>Movie\<close> is frozen, a tuple and a
    float are immutable: they are values.
  \<^item> A new object gets the address \<open>next_free\<close>. The default argument of
    \<open>d.get(key, [])\<close> and of \<open>setdefault(key, [])\<close> is a new list, created before the call
    whether the key is present or not.
  \<^item> A \<open>for\<close> loop runs over the elements that its collection holds when the loop starts.
  \<^item> An address that holds no object of the kind a statement expects reads as the empty
    collection, and a mutation of it does nothing.
\<close>

type_synonym addr = nat

datatype obj =
    DataStoreObj addr addr addr addr
  | MovieDict "(string \<times> movie) list"
  | RefDict "(string \<times> addr) list"
  | RatingDict "(string \<times> real) list"
  | NameSet "string list"
  | NameList "string list"
  | FloatList "real list"
  | RowList "ranked_row list"
  | RecList "(string \<times> real \<times> nat \<times> string) list"

record heap =
  objs :: "addr \<Rightarrow> obj option"
  next_free :: addr

definition alloc :: "obj \<Rightarrow> heap \<Rightarrow> heap" where
  "alloc v h = h\<lparr>objs := (objs h)(next_free h \<mapsto> v), next_free := Suc (next_free h)\<rparr>"

definition put :: "addr \<Rightarrow> obj \<Rightarrow> heap \<Rightarrow> heap" where
  "put a v h = h\<lparr>objs := (objs h)(a \<mapsto> v)\<rparr>"

subsection \<open>Reading an object\<close>

definition movie_dict :: "heap \<Rightarrow> addr \<Rightarrow> (string \<times> movie) list" where
  "movie_dict h a = (case objs h a of Some (MovieDict d) \<Rightarrow> d | _ \<Rightarrow> [])"

definition ref_dict :: "heap \<Rightarrow> addr \<Rightarrow> (string \<times> addr) list" where
  "ref_dict h a = (case objs h a of Some (RefDict d) \<Rightarrow> d | _ \<Rightarrow> [])"

definition rating_dict :: "heap \<Rightarrow> addr \<Rightarrow> (string \<times> real) list" where
  "rating_dict h a = (case objs h a of Some (RatingDict d) \<Rightarrow> d | _ \<Rightarrow> [])"

definition names_of :: "heap \<Rightarrow> addr \<Rightarrow> string list" where
  "names_of h a = (case objs h a of Some (NameSet xs) \<Rightarrow> xs | Some (NameList xs) \<Rightarrow> xs | _ \<Rightarrow> [])"

definition float_list :: "heap \<Rightarrow> addr \<Rightarrow> real list" where
  "float_list h a = (case objs h a of Some (FloatList xs) \<Rightarrow> xs | _ \<Rightarrow> [])"

definition row_list :: "heap \<Rightarrow> addr \<Rightarrow> ranked_row list" where
  "row_list h a = (case objs h a of Some (RowList xs) \<Rightarrow> xs | _ \<Rightarrow> [])"

definition rec_list :: "heap \<Rightarrow> addr \<Rightarrow> (string \<times> real \<times> nat \<times> string) list" where
  "rec_list h a = (case objs h a of Some (RecList xs) \<Rightarrow> xs | _ \<Rightarrow> [])"

text \<open>The four attributes of the store object at \<open>st\<close>, read through to the dictionary.\<close>

definition movies_by_name_in :: "heap \<Rightarrow> addr \<Rightarrow> (string \<times> movie) list" where
  "movies_by_name_in h st = (case objs h st of Some (DataStoreObj mn mg rm ur) \<Rightarrow> movie_dict h mn | _ \<Rightarrow> [])"

definition movies_by_genre_in :: "heap \<Rightarrow> addr \<Rightarrow> (string \<times> addr) list" where
  "movies_by_genre_in h st = (case objs h st of Some (DataStoreObj mn mg rm ur) \<Rightarrow> ref_dict h mg | _ \<Rightarrow> [])"

definition ratings_by_movie_in :: "heap \<Rightarrow> addr \<Rightarrow> (string \<times> addr) list" where
  "ratings_by_movie_in h st = (case objs h st of Some (DataStoreObj mn mg rm ur) \<Rightarrow> ref_dict h rm | _ \<Rightarrow> [])"

definition user_ratings_in :: "heap \<Rightarrow> addr \<Rightarrow> (string \<times> addr) list" where
  "user_ratings_in h st = (case objs h st of Some (DataStoreObj mn mg rm ur) \<Rightarrow> ref_dict h ur | _ \<Rightarrow> [])"

subsection \<open>Changing an object in place\<close>

definition append_row :: "addr \<Rightarrow> ranked_row \<Rightarrow> heap \<Rightarrow> heap" where
  "append_row a x h = (case objs h a of Some (RowList xs) \<Rightarrow> put a (RowList (xs @ [x])) h | _ \<Rightarrow> h)"

definition sort_rows :: "addr \<Rightarrow> heap \<Rightarrow> heap" where
  "sort_rows a h = (case objs h a of Some (RowList xs) \<Rightarrow> put a (RowList (sort_key rank_key xs)) h | _ \<Rightarrow> h)"

definition append_float :: "addr \<Rightarrow> real \<Rightarrow> heap \<Rightarrow> heap" where
  "append_float a x h = (case objs h a of Some (FloatList xs) \<Rightarrow> put a (FloatList (xs @ [x])) h | _ \<Rightarrow> h)"

definition append_rec :: "addr \<Rightarrow> string \<times> real \<times> nat \<times> string \<Rightarrow> heap \<Rightarrow> heap" where
  "append_rec a x h = (case objs h a of Some (RecList xs) \<Rightarrow> put a (RecList (xs @ [x])) h | _ \<Rightarrow> h)"

definition dict_store :: "addr \<Rightarrow> string \<Rightarrow> addr \<Rightarrow> heap \<Rightarrow> heap" where
  "dict_store a k r h = (case objs h a of Some (RefDict d) \<Rightarrow> put a (RefDict (AList.update k r d)) h | _ \<Rightarrow> h)"

subsection \<open>Analytics on the heap\<close>

definition movie_average_rating_heap :: "addr \<Rightarrow> string \<Rightarrow> heap \<Rightarrow> real option \<times> heap" where
  "movie_average_rating_heap st movie_name h =
     (let dflt = next_free h; h1 = alloc (FloatList []) h;
          ratings = (case map_of (ratings_by_movie_in h1 st) movie_name of None \<Rightarrow> dflt | Some a \<Rightarrow> a)
      in if float_list h1 ratings = [] then (None, h1)
         else (Some (fmean (float_list h1 ratings)), h1))"

text \<open>The loop of \<open>rank_movies_by_average\<close>; \<open>items\<close> is the address of the list it fills.\<close>

fun average_items_heap :: "addr \<Rightarrow> addr \<Rightarrow> string list \<Rightarrow> heap \<Rightarrow> heap" where
  "average_items_heap st items [] h = h"
| "average_items_heap st items (nm # rest) h =
     (let dflt = next_free h; h1 = alloc (FloatList []) h;
          ratings = (case map_of (ratings_by_movie_in h1 st) nm of None \<Rightarrow> dflt | Some a \<Rightarrow> a)
      in if float_list h1 ratings = [] then average_items_heap st items rest h1
         else average_items_heap st items rest
                (append_row items (nm, fmean (float_list h1 ratings), length (float_list h1 ratings)) h1))"

text \<open>The last line of the two rankers: \<open>rows[:n]\<close> is a new list, \<open>rows\<close> is the same one.\<close>

definition limit_rows :: "addr \<Rightarrow> int option \<Rightarrow> heap \<Rightarrow> addr \<times> heap" where
  "limit_rows rows n h =
     (case n of
        None \<Rightarrow> (rows, h)
      | Some k \<Rightarrow> (next_free h, alloc (RowList (slice_to (row_list h rows) (Some k))) h))"

definition rank_movies_by_average_heap :: "addr \<Rightarrow> addr option \<Rightarrow> int option \<Rightarrow> heap \<Rightarrow> addr \<times> heap" where
  "rank_movies_by_average_heap st movie_names n h =
     (let items = next_free h; h1 = alloc (RowList []) h;
          candidates = (case movie_names of Some c \<Rightarrow> c | None \<Rightarrow> next_free h1);
          h2 = (case movie_names of Some c \<Rightarrow> h1
                | None \<Rightarrow> alloc (NameList (map fst (ratings_by_movie_in h1 st))) h1);
          h3 = average_items_heap st items (names_of h2 candidates) h2;
          h4 = sort_rows items h3
      in limit_rows items n h4)"

definition rank_movies_in_genre_heap :: "addr \<Rightarrow> string \<Rightarrow> int option \<Rightarrow> heap \<Rightarrow> addr \<times> heap" where
  "rank_movies_in_genre_heap st g n h =
     (let dflt = next_free h; h1 = alloc (NameList []) h;
          found = (case map_of (movies_by_genre_in h1 st) g of None \<Rightarrow> dflt | Some a \<Rightarrow> a);
          genre_movies = next_free h1; h2 = alloc (NameList (names_of h1 found)) h1
      in if names_of h2 genre_movies = [] then (next_free h2, alloc (RowList []) h2)
         else rank_movies_by_average_heap st (Some genre_movies) n h2)"

text \<open>The inner and the outer loop of \<open>rank_genres_by_popularity\<close>.\<close>

fun genre_averages_heap :: "addr \<Rightarrow> addr \<Rightarrow> string list \<Rightarrow> heap \<Rightarrow> heap" where
  "genre_averages_heap st avgs [] h = h"
| "genre_averages_heap st avgs (nm # rest) h =
     (case fst (movie_average_rating_heap st nm h) of
        None \<Rightarrow> genre_averages_heap st avgs rest (snd (movie_average_rating_heap st nm h))
      | Some avg \<Rightarrow>
          genre_averages_heap st avgs rest (append_float avgs avg (snd (movie_average_rating_heap st nm h))))"

fun genre_items_heap :: "addr \<Rightarrow> addr \<Rightarrow> (string \<times> addr) list \<Rightarrow> heap \<Rightarrow> heap" where
  "genre_items_heap st results [] h = h"
| "genre_items_heap st results ((g, movie_names) # rest) h =
     (let avgs = next_free h; h1 = alloc (FloatList []) h;
          h2 = genre_averages_heap st avgs (names_of h1 movie_names) h1
      in if float_list h2 avgs = [] then genre_items_heap st results rest h2
         else genre_items_heap st results rest
                (append_row results (g, fmean (float_list h2 avgs), length (float_list h2 avgs)) h2))"

definition rank_genres_by_popularity_heap :: "addr \<Rightarrow> int option \<Rightarrow> heap \<Rightarrow> addr \<times> heap" where
  "rank_genres_by_popularity_heap st n h =
     (let results = next_free h; h1 = alloc (RowList []) h;
          h2 = genre_items_heap st results (movies_by_genre_in h1 st) h1;
          h3 = sort_rows results h2
      in limit_rows results n h3)"

subsection \<open>Recommender on the heap\<close>

text \<open>The first loop of \<open>user_top_genre\<close>: \<open>by_genre.setdefault(movie.genre, []).append(rating)\<close>
  creates the default list, stores it under the genre if the genre is new, and appends to
  the list that the dictionary then holds for the genre.\<close>

fun group_ratings_heap :: "addr \<Rightarrow> addr \<Rightarrow> (string \<times> real) list \<Rightarrow> heap \<Rightarrow> heap" where
  "group_ratings_heap st by_genre [] h = h"
| "group_ratings_heap st by_genre ((nm, rating) # rest) h =
     (case map_of (movies_by_name_in h st) nm of
        None \<Rightarrow> group_ratings_heap st by_genre rest h
      | Some m \<Rightarrow>
          (let dflt = next_free h; h1 = alloc (FloatList []) h;
               h2 = (case map_of (ref_dict h1 by_genre) (genre m) of
                       None \<Rightarrow> dict_store by_genre (genre m) dflt h1
                     | Some a \<Rightarrow> h1);
               target = (case map_of (ref_dict h1 by_genre) (genre m) of None \<Rightarrow> dflt | Some a \<Rightarrow> a)
           in group_ratings_heap st by_genre rest (append_float target rating h2)))"

fun genre_rows_heap :: "addr \<Rightarrow> (string \<times> addr) list \<Rightarrow> heap \<Rightarrow> heap" where
  "genre_rows_heap rows [] h = h"
| "genre_rows_heap rows ((g, ratings) # rest) h =
     genre_rows_heap rows rest
       (append_row rows (g, fmean (float_list h ratings), length (float_list h ratings)) h)"

definition user_top_genre_heap :: "addr \<Rightarrow> string \<Rightarrow> heap \<Rightarrow> ranked_row option \<times> heap" where
  "user_top_genre_heap st user_id h =
     (case map_of (user_ratings_in h st) user_id of
        None \<Rightarrow> (None, h)
      | Some per_user \<Rightarrow>
          if rating_dict h per_user = [] then (None, h)
          else let by_genre = next_free h; h1 = alloc (RefDict []) h;
                   h2 = group_ratings_heap st by_genre (rating_dict h1 per_user) h1
               in if ref_dict h2 by_genre = [] then (None, h2)
                  else let rows = next_free h2; h3 = alloc (RowList []) h2;
                           h4 = genre_rows_heap rows (ref_dict h3 by_genre) h3;
                           h5 = sort_rows rows h4
                       in (case row_list h5 rows of [] \<Rightarrow> (None, h5) | r # _ \<Rightarrow> (Some r, h5)))"

fun collect_recs_heap ::
  "string list \<Rightarrow> string \<Rightarrow> int \<Rightarrow> addr \<Rightarrow> ranked_row list \<Rightarrow> heap \<Rightarrow> heap" where
  "collect_recs_heap rated g k recs [] h = h"
| "collect_recs_heap rated g k recs ((nm, avg, cnt) # rest) h =
     (if nm \<in> set rated then collect_recs_heap rated g k recs rest h
      else let h1 = append_rec recs (nm, avg, cnt, g) h in
        if k \<le> int (length (rec_list h1 recs)) then h1
        else collect_recs_heap rated g k recs rest h1)"

definition recommend_for_user_heap :: "addr \<Rightarrow> string \<Rightarrow> int \<Rightarrow> heap \<Rightarrow> addr \<times> heap" where
  "recommend_for_user_heap st user_id k h =
     (let h1 = snd (user_top_genre_heap st user_id h) in
      case fst (user_top_genre_heap st user_id h) of
        None \<Rightarrow> (next_free h1, alloc (RecList []) h1)
      | Some top_row \<Rightarrow>
          (let g = fst top_row;
               dflt = next_free h1; h2 = alloc (RatingDict []) h1;
               found = (case map_of (user_ratings_in h2 st) user_id of None \<Rightarrow> dflt | Some a \<Rightarrow> a);
               rated = next_free h2; h3 = alloc (NameSet (map fst (rating_dict h2 found))) h2;
               ranked = fst (rank_movies_in_genre_heap st g None h3);
               h4 = snd (rank_movies_in_genre_heap st g None h3);
               recs = next_free h4; h5 = alloc (RecList []) h4
           in (recs, collect_recs_heap (names_of h5 rated) g k recs (row_list h5 ranked) h5)))"

subsection \<open>A store laid out on the heap\<close>

text \<open>The heap that holds the objects of a store and nothing else: each set, list and
  inner dictionary at an address of its own, then the four dictionaries, then the store
  object. \<open>store_of\<close> reads a store back from the heap.\<close>

definition empty_heap :: heap where
  "empty_heap = \<lparr>objs = (\<lambda>a. None), next_free = 0\<rparr>"

fun alloc_values :: "('v \<Rightarrow> obj) \<Rightarrow> (string \<times> 'v) list \<Rightarrow> heap \<Rightarrow> (string \<times> addr) list \<times> heap" where
  "alloc_values mk [] h = ([], h)"
| "alloc_values mk ((k, v) # rest) h =
     ((k, next_free h) # fst (alloc_values mk rest (alloc (mk v) h)),
      snd (alloc_values mk rest (alloc (mk v) h)))"

definition store_heap :: "data_store \<Rightarrow> addr \<times> heap" where
  "store_heap s =
     (let g = alloc_values NameSet (movies_by_genre s) empty_heap;
          r = alloc_values FloatList (ratings_by_movie s) (snd g);
          u = alloc_values RatingDict (user_ratings s) (snd r);
          h1 = snd u;
          mn = next_free h1; h2 = alloc (MovieDict (movies_by_name s)) h1;
          mg = next_free h2; h3 = alloc (RefDict (fst g)) h2;
          rm = next_free h3; h4 = alloc (RefDict (fst r)) h3;
          ur = next_free h4; h5 = alloc (RefDict (fst u)) h4
      in (next_free h5, alloc (DataStoreObj mn mg rm ur) h5))"

definition store_of :: "heap \<Rightarrow> addr \<Rightarrow> data_store" where
  "store_of h st =
     \<lparr>movies_by_name = movies_by_name_in h st,
      movies_by_genre = map (\<lambda>(g, a). (g, names_of h a)) (movies_by_genre_in h st),
      ratings_by_movie = map (\<lambda>(nm, a). (nm, float_list h a)) (ratings_by_movie_in h st),
      user_ratings = map (\<lambda>(u, a). (u, rating_dict h a)) (user_ratings_in h st)\<rparr>"

text \<open>Every object that the store at \<open>st\<close> refers to has an address below \<open>next_free\<close>.\<close>

definition store_allocated :: "heap \<Rightarrow> addr \<Rightarrow> bool" where
  "store_allocated h st =
     (st < next_free h
      \<and> (case objs h st of
           Some (DataStoreObj mn mg rm ur) \<Rightarrow>
             mn < next_free h \<and> mg < next_free h \<and> rm < next_free h \<and> ur < next_free h
             \<and> list_all (\<lambda>(k, a). a < next_free h) (ref_dict h mg)
             \<and> list_all (\<lambda>(k, a). a < next_free h) (ref_dict h rm)
             \<and> list_all (\<lambda>(k, a). a < next_free h) (ref_dict h ur)
         | _ \<Rightarrow> True))"

text \<open>The heap \<open>h'\<close> has every object of \<open>h\<close>, unchanged, and possibly new ones.\<close>

definition extends :: "heap \<Rightarrow> heap \<Rightarrow> bool" where
  "extends h h' = (next_free h \<le> next_free h' \<and> (\<forall>a < next_free h. objs h' a = objs h a))"

text \<open>What the first loop of \<open>user_top_genre\<close> keeps true of the dictionary \<open>by_genre\<close>: its
  values are lists of their own, created after the dictionary.\<close>

definition grouped :: "heap \<Rightarrow> addr \<Rightarrow> (string \<times> addr) list \<Rightarrow> bool" where
  "grouped h by_genre d =
     (by_genre < next_free h \<and> objs h by_genre = Some (RefDict d) \<and> distinct (map snd d)
      \<and> (\<forall>(g, a) \<in> set d. by_genre < a \<and> a < next_free h \<and> (\<exists>xs. objs h a = Some (FloatList xs))))"

definition fixture_heap :: heap where
  "fixture_heap = snd (store_heap fixture_store)"

definition fixture_at :: addr where
  "fixture_at = fst (store_heap fixture_store)"

section \<open>Evaluation of the fixture\<close>

lemma fixture_store_eq:
  "fixture_store =
     \<lparr>movies_by_name =
        [(''Alpha (2001)'', \<lparr>genre = ''Action'', movie_id = ''m1'', name = ''Alpha (2001)''\<rparr>),
         (''Bravo (1999)'', \<lparr>genre = ''Action'', movie_id = ''m2'', name = ''Bravo (1999)''\<rparr>),
         (''Charlie (2010)'', \<lparr>genre = ''Drama'', movie_id = ''m3'', name = ''Charlie (2010)''\<rparr>),
         (''Delta (2011)'', \<lparr>genre = ''Drama'', movie_id = ''m4'', name = ''Delta (2011)''\<rparr>),
         (''Echo (2005)'', \<lparr>genre = ''Comedy'', movie_id = ''m5'', name = ''Echo (2005)''\<rparr>),
         (''Foxtrot (2007)'', \<lparr>genre = ''Comedy'', movie_id = ''m6'', name = ''Foxtrot (2007)''\<rparr>)],
      movies_by_genre =
        [(''Action'', [''Alpha (2001)'', ''Bravo (1999)'']),
         (''Drama'', [''Charlie (2010)'', ''Delta (2011)'']),
         (''Comedy'', [''Echo (2005)'', ''Foxtrot (2007)''])],
      ratings_by_movie =
        [(''Alpha (2001)'', [5, 4]),
         (''Bravo (1999)'', [4, 4]),
         (''Charlie (2010)'', [5, 5, 1]),
         (''Delta (2011)'', [3]),
         (''Foxtrot (2007)'', [4, 5])],
      user_ratings =
        [(''u1'', [(''Alpha (2001)'', 5), (''Bravo (1999)'', 4), (''Charlie (2010)'', 5), (''Ghost (2012)'', 5)]),
         (''u2'', [(''Alpha (2001)'', 4), (''Charlie (2010)'', 5), (''Delta (2011)'', 3), (''Foxtrot (2007)'', 4)]),
         (''u3'', [(''Bravo (1999)'', 4), (''Charlie (2010)'', 1), (''Foxtrot (2007)'', 5)])]\<rparr>"
  by code_simp

lemma fixture_counts:
  "fst (load_movies_file fixture_movies empty_store) = 6"
  "fst (load_ratings_file float_of_digits fixture_ratings (snd (load_movies_file fixture_movies empty_store))) = 11"
  by code_simp+

lemma fixture_top_movies:
  "rank_movies_by_average fixture_store None None =
     [(''Alpha (2001)'', 9/2, 2), (''Foxtrot (2007)'', 9/2, 2), (''Bravo (1999)'', 4, 2),
      (''Charlie (2010)'', 11/3, 3), (''Delta (2011)'', 3, 1)]"
  by code_simp

lemma fixture_top_genres:
  "rank_genres_by_popularity fixture_store None =
     [(''Comedy'', 9/2, 1), (''Action'', 17/4, 2), (''Drama'', 10/3, 2)]"
  by code_simp

lemma fixture_user_top_genre:
  "user_top_genre fixture_store ''u1'' = Some (''Drama'', 5, 1)"
  "user_top_genre fixture_store ''u2'' = Some (''Drama'', 4, 2)"
  by code_simp+

lemma fixture_recommend:
  "recommend_for_user fixture_store ''u1'' 3 = [(''Delta (2011)'', 3, 1, ''Drama'')]"
  "recommend_for_user fixture_store ''u2'' 3 = []"
  by code_simp+

section \<open>Slicing\<close>

lemma slice_to_zero: "slice_to xs (Some 0) = []"
  by (simp add: slice_to_def)

lemma slice_to_negative: "n < 0 \<Longrightarrow> slice_to xs (Some n) = take (length xs - nat (- n)) xs"
  by (simp add: slice_to_def)

lemma slice_to_None: "slice_to xs None = xs"
  by (simp add: slice_to_def)

section \<open>Mean rating of a movie\<close>

text \<open>
  Claim C7. For every store and every movie name, \<open>movie_average_rating\<close> is absent exactly
  when the movie has no entry in \<open>ratings_by_movie\<close> or an empty one (it is never zero in
  that case), and otherwise it is the arithmetic mean of the entry's values: the sum divided
  by the number of values, hence within \<open>1e-6\<close> of it. Ratings are real numbers here.
\<close>

theorem movie_average_rating_mean:
  "(movie_average_rating s m = None \<longleftrightarrow>
      map_of (ratings_by_movie s) m = None \<or> map_of (ratings_by_movie s) m = Some [])
   \<and> (\<forall>rs. map_of (ratings_by_movie s) m = Some rs \<longrightarrow> rs \<noteq> [] \<longrightarrow>
         (\<exists>v. movie_average_rating s m = Some v \<and> v = sum_list rs / real (length rs)
              \<and> \<bar>v - sum_list rs / real (length rs)\<bar> \<le> 1 / 10 ^ 6))"
  by (auto simp: movie_average_rating_def dict_get_def fmean_def Let_def split: option.splits)

theorem movie_average_rating_mean_witness:
  "map_of (ratings_by_movie fixture_store) ''Alpha (2001)'' = Some [5, 4]
   \<and> movie_average_rating fixture_store ''Alpha (2001)'' = Some (9 / 2)
   \<and> map_of (ratings_by_movie fixture_store) ''Echo (2005)'' = None
   \<and> movie_average_rating fixture_store ''Echo (2005)'' = None"
  using movie_average_rating_mean [of fixture_store "''Alpha (2001)''"]
    movie_average_rating_mean [of fixture_store "''Echo (2005)''"]
  by (simp add: fixture_store_eq)

section \<open>Limits that are not positive\<close>

text \<open>
  Claim C4 says that a limit \<open>n \<le> 0\<close> gives the empty list. With the limit \<open>-1\<close> the
  fixture's ranking of all movies keeps four of its five rows.
\<close>

theorem negative_limit_counterexample:
  "(-1::int) \<le> 0 \<and> rank_movies_by_average fixture_store None (Some (-1)) \<noteq> []"
  by code_simp

text \<open>
  Claim C4, amended. With the limit \<open>0\<close> the three ranking queries return the empty list.
  With a negative limit \<open>n\<close> they return the full ranking without its last \<open>-n\<close> rows, as
  the slice \<open>rows[:n]\<close> does.
\<close>

theorem ranking_limit_zero_or_negative:
  "rank_movies_by_average s names (Some 0) = []
   \<and> rank_movies_in_genre s g (Some 0) = []
   \<and> rank_genres_by_popularity s (Some 0) = []
   \<and> (n < 0 \<longrightarrow>
        rank_movies_by_average s names (Some n) =
          take (length (rank_movies_by_average s names None) - nat (- n)) (rank_movies_by_average s names None)
      \<and> rank_movies_in_genre s g (Some n) =
          take (length (rank_movies_in_genre s g None) - nat (- n)) (rank_movies_in_genre s g None)
      \<and> rank_genres_by_popularity s (Some n) =
          take (length (rank_genres_by_popularity s None) - nat (- n)) (rank_genres_by_popularity s None))"
  by (simp add: rank_movies_by_average_def rank_movies_in_genre_def rank_genres_by_popularity_def
      slice_to_zero slice_to_negative slice_to_None Let_def)

theorem ranking_limit_zero_or_negative_witness:
  "(-1::int) < 0
   \<and> rank_movies_by_average fixture_store None (Some (-1)) =
       [(''Alpha (2001)'', 9/2, 2), (''Foxtrot (2007)'', 9/2, 2), (''Bravo (1999)'', 4, 2), (''Charlie (2010)'', 11/3, 3)]
   \<and> rank_movies_by_average fixture_store None (Some 0) = []"
  using ranking_limit_zero_or_negative [of fixture_store None "''Action''" "-1"]
  by (simp add: fixture_top_movies)

section \<open>Recommendations\<close>

text \<open>The loop of \<open>recommend_for_user\<close> in closed form: it keeps the rows whose movie the
  user has not rated and stops after \<open>k\<close> of them, or after one when \<open>k\<close> is not above the
  number already collected.\<close>

lemma collect_recs_take:
  "collect_recs rated g k ranked recs =
     recs @ take (if int (length recs) < k then nat k - length recs else 1)
              (map (\<lambda>(nm, avg, cnt). (nm, avg, cnt, g))
                 (filter (\<lambda>(nm, avg, cnt). nm \<notin> set rated) ranked))"
proof (induction rated g k ranked recs rule: collect_recs.induct)
  case (1 rated g k recs)
  show ?case by simp
next
  case (2 rated g k nm avg cnt rest recs)
  show ?case
  proof (cases "nm \<in> set rated")
    case True
    with 2 show ?thesis by simp
  next
    case False
    show ?thesis
    proof (cases "k \<le> int (length recs) + 1")
      case True
      then have "int (length recs) < k \<Longrightarrow> nat k - length recs = Suc 0" by linarith
      with True False show ?thesis by (auto simp: Let_def)
    next
      case big: False
      then have "nat k - length recs = Suc (nat k - Suc (length recs))" by linarith
      with big False 2(2) [OF False refl] show ?thesis
        by (simp add: Let_def)
    qed
  qed
qed

lemma recommend_for_user_take:
  "recommend_for_user s u k =
     (case user_top_genre s u of
        None \<Rightarrow> []
      | Some t \<Rightarrow>
          take (if 0 < k then nat k else 1)
            (map (\<lambda>(nm, avg, cnt). (nm, avg, cnt, fst t))
               (filter (\<lambda>(nm, avg, cnt). nm \<notin> fst ` set (dict_get (user_ratings s) u []))
                  (rank_movies_in_genre s (fst t) None))))"
  by (simp add: recommend_for_user_def collect_recs_take Let_def split: option.splits)

lemma drop_genre_add_genre:
  "map (\<lambda>(nm, avg, cnt, g). (nm, avg, cnt)) (map (\<lambda>(nm, avg, cnt). (nm, avg, cnt, g')) xs) = xs"
  by (induction xs) auto

text \<open>
  What holds for every store, user and integer \<open>k\<close>: no recommended movie is one the user
  has rated; there are at most \<open>max 1 k\<close> recommendations; and the recommendations, without
  their genre column, appear in the order of the unlimited ranking of the user's top genre
  (there are none when the user has no top genre).
\<close>

lemma recommend_for_user_properties:
  "(\<forall>r \<in> set (recommend_for_user s u k). fst r \<notin> fst ` set (dict_get (user_ratings s) u []))
   \<and> int (length (recommend_for_user s u k)) \<le> max 1 k
   \<and> (case user_top_genre s u of
         None \<Rightarrow> recommend_for_user s u k = []
       | Some t \<Rightarrow>
           subseq (map (\<lambda>(nm, avg, cnt, g). (nm, avg, cnt)) (recommend_for_user s u k))
             (rank_movies_in_genre s (fst t) None))"
proof (cases "user_top_genre s u")
  case None
  then show ?thesis by (simp add: recommend_for_user_take)
next
  case (Some t)
  define m where "m = (if 0 < k then nat k else 1)"
  define ranked where "ranked = rank_movies_in_genre s (fst t) None"
  define keep where "keep = filter (\<lambda>(nm, avg, cnt). nm \<notin> fst ` set (dict_get (user_ratings s) u [])) ranked"
  define tag where "tag = (\<lambda>(nm :: string, avg :: real, cnt :: nat). (nm, avg, cnt, fst t))"
  have eq: "recommend_for_user s u k = take m (map tag keep)"
    by (simp add: recommend_for_user_take Some m_def keep_def ranked_def tag_def)
  have a: "\<forall>r \<in> set (recommend_for_user s u k). fst r \<notin> fst ` set (dict_get (user_ratings s) u [])"
  proof
    fix r assume "r \<in> set (recommend_for_user s u k)"
    then have "r \<in> set (map tag keep)" unfolding eq by (rule in_set_takeD)
    then show "fst r \<notin> fst ` set (dict_get (user_ratings s) u [])"
      by (force simp: tag_def keep_def)
  qed
  have b: "int (length (recommend_for_user s u k)) \<le> max 1 k"
    by (auto simp: eq m_def)
  have "map (\<lambda>(nm, avg, cnt, g). (nm, avg, cnt)) (take m (map tag keep)) = take m keep"
    unfolding tag_def take_map by (simp only: drop_genre_add_genre)
  moreover have "subseq (take m keep) keep"
    by (metis append_take_drop_id list_emb_append2 list_emb_prefix subseq_order.order_refl)
  moreover have "subseq keep ranked" unfolding keep_def by simp
  ultimately have c: "subseq (map (\<lambda>(nm, avg, cnt, g). (nm, avg, cnt)) (recommend_for_user s u k)) ranked"
    unfolding eq using subseq_order.order_trans by metis
  from a b c show ?thesis by (simp add: Some ranked_def)
qed

text \<open>
  Claim C5. The claim bounds the number of recommendations by \<open>k\<close> for every integer \<open>k\<close>,
  as the docstring of \<open>recommend_for_user\<close> does ("Recommend up to k movies"). With
  \<open>k = 0\<close> the fixture's user \<open>u1\<close> gets one recommendation: the loop appends a row before
  it compares the length of the result with \<open>k\<close>.
\<close>

theorem recommend_zero_returns_one:
  "recommend_for_user fixture_store ''u1'' 0 = [(''Delta (2011)'', 3, 1, ''Drama'')]"
  by code_simp

section \<open>A movie name listed under two genres\<close>

text \<open>
  Claim C2. After loading the two rows \<open>Action|m1|Alpha\<close> and \<open>Drama|m1|Alpha\<close>, the movie
  \<open>Alpha\<close> has the genre \<open>Drama\<close> in \<open>movies_by_name\<close>, and \<open>movies_by_genre\<close> still lists
  it under \<open>Action\<close>: the loader adds the name to the new genre and never removes it from
  the old one.
\<close>

theorem stale_genre_entry:
  "movies_by_name (snd (load_movies_file [''Action|m1|Alpha'', ''Drama|m1|Alpha''] empty_store)) =
     [(''Alpha'', \<lparr>genre = ''Drama'', movie_id = ''m1'', name = ''Alpha''\<rparr>)]
   \<and> movies_by_genre (snd (load_movies_file [''Action|m1|Alpha'', ''Drama|m1|Alpha''] empty_store)) =
     [(''Action'', [''Alpha'']), (''Drama'', [''Alpha''])]"
  by code_simp

text \<open>
  Claim C3. With the same two movie rows and one rating of \<open>Alpha\<close>, the ranking of the genre
  \<open>Action\<close> returns \<open>Alpha\<close>, whose genre in \<open>movies_by_name\<close> is \<open>Drama\<close>.
\<close>

theorem genre_ranking_stale_movie:
  "rank_movies_in_genre
     (snd (load_ratings_file float_of_digits [''Alpha|5|u1'']
        (snd (load_movies_file [''Action|m1|Alpha'', ''Drama|m1|Alpha''] empty_store))))
     ''Action'' None = [(''Alpha'', 5, 1)]
   \<and> map_of (movies_by_name
       (snd (load_ratings_file float_of_digits [''Alpha|5|u1'']
          (snd (load_movies_file [''Action|m1|Alpha'', ''Drama|m1|Alpha''] empty_store))))) ''Alpha''
     = Some \<lparr>genre = ''Drama'', movie_id = ''m1'', name = ''Alpha''\<rparr>"
  by code_simp

section \<open>Dictionaries\<close>

lemma dict_get_update:
  "dict_get (AList.update k v d) k' dflt = (if k' = k then v else dict_get d k' dflt)"
  by (simp add: dict_get_def update_conv')

lemma dict_get_Nil: "dict_get [] k dflt = dflt"
  by (simp add: dict_get_def)

lemma dict_get_in_set:
  "dict_get d k dflt = dflt \<or> (k, dict_get d k dflt) \<in> set d"
  by (auto simp: dict_get_def split: option.splits dest: map_of_SomeD)

lemma set_update_subset: "set (AList.update k v d) \<subseteq> insert (k, v) (set d)"
  by (induction d) auto

lemma length_update_key:
  "length (AList.update k v d) = (if k \<in> fst ` set d then length d else Suc (length d))"
  by (induction d) auto

lemma sum_lengths_update:
  "sum_list (map (\<lambda>(k, v). length v) (AList.update k v d)) + length (dict_get d k [])
     = sum_list (map (\<lambda>(k, v). length v) d) + length v"
  by (induction d) (auto simp: dict_get_def)

section \<open>The first loop of the ratings loader\<close>

lemma fold_load_ratings_line:
  "fold (load_ratings_line pf) lines ur = fold store_rating (accepted_ratings pf lines) ur"
  by (induction lines arbitrary: ur)
    (auto simp: accepted_ratings_def load_ratings_line_def List.map_filter_simps split: option.splits)

lemma store_rating_lookup:
  "map_of (dict_get (store_rating (m, r, u) ur) u' []) m' =
     (if u' = u \<and> m' = m then Some r else map_of (dict_get ur u' []) m')"
  by (simp add: store_rating_def dict_get_update update_conv')

lemma fold_store_rating_lookup:
  "map_of (dict_get (fold store_rating rows ur) u []) m =
     (case map_of (rev (map (\<lambda>(m, r, u). ((u, m), r)) rows)) (u, m) of
        None \<Rightarrow> map_of (dict_get ur u []) m
      | Some r \<Rightarrow> Some r)"
proof (induction rows arbitrary: ur)
  case Nil
  show ?case by simp
next
  case (Cons row rows)
  obtain m' r' u' where row: "row = (m', r', u')" by (cases row)
  show ?case
    by (auto simp: Cons.IH row store_rating_lookup map_add_def split: option.splits)
qed

lemma store_rating_count:
  "sum_list (map (\<lambda>(u, per_user). length per_user) (store_rating (m, r, u) ur)) =
     sum_list (map (\<lambda>(u, per_user). length per_user) ur)
       + (if map_of (dict_get ur u []) m = None then 1 else 0)"
proof -
  let ?pu = "dict_get ur u []"
  have "sum_list (map (\<lambda>(u, per_user). length per_user) (store_rating (m, r, u) ur)) + length ?pu
      = sum_list (map (\<lambda>(u, per_user). length per_user) ur) + length (AList.update m r ?pu)"
    unfolding store_rating_def prod.case by (rule sum_lengths_update)
  moreover have "length (AList.update m r ?pu) = length ?pu + (if map_of ?pu m = None then 1 else 0)"
    by (simp add: length_update_key map_of_eq_None_iff)
  ultimately show ?thesis by simp
qed

lemma rated_pairs_Nil: "rated_pairs [] = {}"
  by (simp add: rated_pairs_def dict_get_Nil)

lemma rated_pairs_store_rating:
  "rated_pairs (store_rating (m, r, u) ur) = insert (u, m) (rated_pairs ur)"
  by (auto simp: rated_pairs_def store_rating_lookup)

lemma fold_store_rating_count:
  "finite (rated_pairs ur) \<Longrightarrow>
   sum_list (map (\<lambda>(u, per_user). length per_user) ur) = card (rated_pairs ur) \<Longrightarrow>
   sum_list (map (\<lambda>(u, per_user). length per_user) (fold store_rating rows ur)) =
     card (rated_pairs ur \<union> set (map (\<lambda>(m, r, u). (u, m)) rows))"
proof (induction rows arbitrary: ur)
  case Nil
  then show ?case by simp
next
  case (Cons row rows)
  obtain m r u where row: "row = (m, r, u)" by (cases row)
  have P: "rated_pairs (store_rating row ur) = insert (u, m) (rated_pairs ur)"
    unfolding row by (rule rated_pairs_store_rating)
  have fin: "finite (rated_pairs (store_rating row ur))"
    unfolding P using Cons.prems(1) by simp
  have mem: "(u, m) \<in> rated_pairs ur \<longleftrightarrow> map_of (dict_get ur u []) m \<noteq> None"
    by (simp add: rated_pairs_def)
  have "card (insert (u, m) (rated_pairs ur)) =
      card (rated_pairs ur) + (if map_of (dict_get ur u []) m = None then 1 else 0)"
    using Cons.prems(1) mem by (simp add: card_insert_if)
  then have cnt: "sum_list (map (\<lambda>(u, per_user). length per_user) (store_rating row ur))
      = card (rated_pairs (store_rating row ur))"
    unfolding P using Cons.prems(2) by (simp only: row store_rating_count)
  have "rated_pairs (store_rating row ur) \<union> set (map (\<lambda>(m, r, u). (u, m)) rows)
      = rated_pairs ur \<union> set (map (\<lambda>(m, r, u). (u, m)) (row # rows))"
    unfolding P by (simp add: row)
  with Cons.IH [OF fin cnt] show ?case by simp
qed

text \<open>
  Claim C6. For every ratings input, \<open>load_ratings_file\<close> returns the number of distinct
  pairs \<open>(user_id, movie_name)\<close> among the accepted rows, whatever \<open>movies_by_name\<close> holds;
  and the rating kept for a pair is the one of its last accepted row.
\<close>

theorem load_ratings_unique_pairs:
  "fst (load_ratings_file pf lines s) =
     card (set (map (\<lambda>(movie_name, rating, user_id). (user_id, movie_name)) (accepted_ratings pf lines)))
   \<and> map_of (dict_get (user_ratings (snd (load_ratings_file pf lines s))) u []) m =
       map_of (rev (map (\<lambda>(movie_name, rating, user_id). ((user_id, movie_name), rating))
                      (accepted_ratings pf lines))) (u, m)"
proof -
  have "sum_list (map (\<lambda>(u, per_user). length per_user) (fold store_rating (accepted_ratings pf lines) [])) =
     card (rated_pairs [] \<union> set (map (\<lambda>(m, r, u). (u, m)) (accepted_ratings pf lines)))"
    by (rule fold_store_rating_count) (simp_all add: rated_pairs_Nil)
  then have "fst (load_ratings_file pf lines s) =
     card (set (map (\<lambda>(m, r, u). (u, m)) (accepted_ratings pf lines)))"
    by (simp add: load_ratings_file_def fold_load_ratings_line rated_pairs_Nil Let_def)
  moreover have "map_of (dict_get (user_ratings (snd (load_ratings_file pf lines s))) u []) m =
       map_of (rev (map (\<lambda>(m, r, u). ((u, m), r)) (accepted_ratings pf lines))) (u, m)"
    by (simp add: load_ratings_file_def fold_load_ratings_line fold_store_rating_lookup dict_get_Nil Let_def
        split: option.splits)
  ultimately show ?thesis by simp
qed



section \<open>The second loop of the ratings loader\<close>

lemma add_rating_get:
  "dict_get (add_rating mbn (m, r) rbm) n [] =
     dict_get rbm n [] @ (if m = n \<and> n \<in> fst ` set mbn then [r] else [])"
  by (simp add: add_rating_def dict_get_update)

lemma add_rating_keys: "fst ` set (add_rating mbn mr rbm) \<subseteq> fst ` set rbm \<union> fst ` set mbn"
  by (auto simp: add_rating_def dom_update)

lemma fold_add_rating_get:
  "dict_get (fold (add_rating mbn) pu rbm) n [] =
     dict_get rbm n [] @ (if n \<in> fst ` set mbn then map snd (filter (\<lambda>(m, r). m = n) pu) else [])"
proof (induction pu arbitrary: rbm)
  case Nil
  show ?case by simp
next
  case (Cons mr pu)
  obtain m r where mr: "mr = (m, r)" by (cases mr)
  show ?case by (simp add: Cons.IH mr add_rating_get)
qed

lemma fold_add_rating_keys:
  "fst ` set (fold (add_rating mbn) pu rbm) \<subseteq> fst ` set rbm \<union> fst ` set mbn"
proof (induction pu arbitrary: rbm)
  case Nil
  show ?case by simp
next
  case (Cons mr pu)
  from Cons.IH [of "add_rating mbn mr rbm"] add_rating_keys [of mbn mr rbm]
  show ?case by auto
qed

lemma fold_users_get:
  "dict_get (fold (\<lambda>(user_id, per_user) rbm. fold (add_rating mbn) per_user rbm) ur rbm) n [] =
     dict_get rbm n [] @
       (if n \<in> fst ` set mbn
        then concat (map (\<lambda>(user_id, per_user). map snd (filter (\<lambda>(m, r). m = n) per_user)) ur)
        else [])"
proof (induction ur arbitrary: rbm)
  case Nil
  show ?case by simp
next
  case (Cons up ur)
  obtain u pu where up: "up = (u, pu)" by (cases up)
  show ?case by (simp add: Cons.IH up fold_add_rating_get)
qed

lemma fold_users_keys:
  "fst ` set (fold (\<lambda>(user_id, per_user) rbm. fold (add_rating mbn) per_user rbm) ur rbm)
     \<subseteq> fst ` set rbm \<union> fst ` set mbn"
proof (induction ur arbitrary: rbm)
  case Nil
  show ?case by simp
next
  case (Cons up ur)
  obtain u pu where up: "up = (u, pu)" by (cases up)
  from Cons.IH [of "fold (add_rating mbn) pu rbm"] fold_add_rating_keys [of mbn pu rbm]
  show ?case by (auto simp: up)
qed

lemma filter_key_distinct:
  "distinct (map fst pu) \<Longrightarrow>
   map snd (filter (\<lambda>(m, r). m = n) pu) = (case map_of pu n of None \<Rightarrow> [] | Some r \<Rightarrow> [r])"
proof (induction pu)
  case Nil
  show ?case by simp
next
  case (Cons mr pu)
  obtain m r where mr: "mr = (m, r)" by (cases mr)
  from Cons.prems have "m \<notin> fst ` set pu" and d: "distinct (map fst pu)" by (auto simp: mr)
  then have "map_of pu m = None" by (simp add: map_of_eq_None_iff)
  with Cons.IH [OF d] show ?case by (auto simp: mr)
qed

lemma concat_filter_key:
  "list_all (\<lambda>(user_id, per_user). distinct (map fst per_user)) ur \<Longrightarrow>
   concat (map (\<lambda>(user_id, per_user). map snd (filter (\<lambda>(m, r). m = n) per_user)) ur) =
     List.map_filter (\<lambda>(user_id, per_user). map_of per_user n) ur"
proof (induction ur)
  case Nil
  show ?case by (simp add: List.map_filter_simps)
next
  case (Cons up ur)
  obtain u pu where up: "up = (u, pu)" by (cases up)
  from Cons show ?case
    by (auto simp: up filter_key_distinct List.map_filter_simps split: option.splits)
qed

lemma store_rating_distinct:
  assumes "list_all (\<lambda>(user_id, per_user). distinct (map fst per_user)) ur"
  shows "list_all (\<lambda>(user_id, per_user). distinct (map fst per_user)) (store_rating row ur)"
proof -
  obtain m r u where row: "row = (m, r, u)" by (cases row)
  have "distinct (map fst (dict_get ur u []))"
    using dict_get_in_set [of ur u "[]"] assms by (auto simp: list_all_iff)
  then have "distinct (map fst (AList.update m r (dict_get ur u [])))"
    by (rule distinct_update)
  with assms set_update_subset [of u "AList.update m r (dict_get ur u [])" ur]
  show ?thesis by (auto simp: row store_rating_def list_all_iff)
qed

lemma fold_store_rating_distinct:
  "list_all (\<lambda>(user_id, per_user). distinct (map fst per_user)) ur \<Longrightarrow>
   list_all (\<lambda>(user_id, per_user). distinct (map fst per_user)) (fold store_rating rows ur)"
  by (induction rows arbitrary: ur) (simp_all add: store_rating_distinct)

lemma load_ratings_file_fields:
  "movies_by_name (snd (load_ratings_file pf lines s)) = movies_by_name s"
  "movies_by_genre (snd (load_ratings_file pf lines s)) = movies_by_genre s"
  "user_ratings (snd (load_ratings_file pf lines s)) = fold store_rating (accepted_ratings pf lines) []"
  "ratings_by_movie (snd (load_ratings_file pf lines s)) =
     build_ratings_by_movie (movies_by_name s) (fold store_rating (accepted_ratings pf lines) [])"
  by (simp_all add: load_ratings_file_def Let_def fold_load_ratings_line)

lemma store_movie_ratings:
  "ratings_by_movie (store_movie m s) = ratings_by_movie s"
  "user_ratings (store_movie m s) = user_ratings s"
  by (simp_all add: store_movie_def)

lemma fold_load_movies_line_ratings:
  "ratings_by_movie (fst (fold load_movies_line lines sc)) = ratings_by_movie (fst sc)
   \<and> user_ratings (fst (fold load_movies_line lines sc)) = user_ratings (fst sc)"
  by (induction lines arbitrary: sc)
    (auto simp: load_movies_line_def store_movie_ratings split: option.splits)

lemma load_movies_file_ratings:
  "ratings_by_movie (snd (load_movies_file lines s)) = ratings_by_movie s"
  "user_ratings (snd (load_movies_file lines s)) = user_ratings s"
  by (simp_all add: load_movies_file_def Let_def fold_load_movies_line_ratings)

section \<open>The ratings index and its invariant\<close>

lemma reload_movies_store:
  "run_all float_of_digits [LoadRatings [''Alpha|5|u1''], LoadMovies [''Action|m1|Alpha'']] empty_store =
     \<lparr>movies_by_name = [(''Alpha'', \<lparr>genre = ''Action'', movie_id = ''m1'', name = ''Alpha''\<rparr>)],
      movies_by_genre = [(''Action'', [''Alpha''])],
      ratings_by_movie = [],
      user_ratings = [(''u1'', [(''Alpha'', 5)])]\<rparr>"
  by code_simp

text \<open>
  Claim C1 says that the invariant holds after any sequence of loads and clears. Loading
  one rating of \<open>Alpha\<close> and then a movies file that lists \<open>Alpha\<close> leaves
  \<open>ratings_by_movie\<close> empty, although user \<open>u1\<close> has rated the known movie \<open>Alpha\<close>.
\<close>

theorem ratings_index_stale_counterexample:
  "\<not> ratings_entry_ok
       (run_all float_of_digits [LoadRatings [''Alpha|5|u1''], LoadMovies [''Action|m1|Alpha'']] empty_store)
       ''Alpha''"
  by (simp add: reload_movies_store ratings_entry_ok_def dict_get_def List.map_filter_simps)

text \<open>
  Claim C1, amended. The invariant holds for every movie name in the store that
  \<open>load_ratings_file\<close> returns, for the \<open>movies_by_name\<close> it found, and in a cleared store;
  \<open>load_movies_file\<close> leaves \<open>ratings_by_movie\<close> and \<open>user_ratings\<close> as they were, so it
  derives nothing anew.
\<close>

theorem ratings_index_after_load_ratings:
  "ratings_entry_ok (snd (load_ratings_file pf lines s)) n
   \<and> ratings_entry_ok (clear s) n
   \<and> ratings_by_movie (snd (load_movies_file lines s)) = ratings_by_movie s
   \<and> user_ratings (snd (load_movies_file lines s)) = user_ratings s"
proof -
  let ?ur = "fold store_rating (accepted_ratings pf lines) []"
  let ?rbm = "build_ratings_by_movie (movies_by_name s) ?ur"
  have d: "list_all (\<lambda>(user_id, per_user). distinct (map fst per_user)) ?ur"
    by (rule fold_store_rating_distinct) simp
  have "dict_get ?rbm n [] = List.map_filter (\<lambda>(user_id, per_user). map_of per_user n) ?ur"
    if "n \<in> fst ` set (movies_by_name s)"
    using that by (simp add: build_ratings_by_movie_def fold_users_get dict_get_Nil concat_filter_key [OF d])
  moreover have "map_of ?rbm n = None" if "n \<notin> fst ` set (movies_by_name s)"
  proof -
    from fold_users_keys [of "movies_by_name s" ?ur "[]"] that
    have "n \<notin> fst ` set ?rbm" by (auto simp: build_ratings_by_movie_def)
    then show ?thesis by (simp add: map_of_eq_None_iff)
  qed
  ultimately have "ratings_entry_ok (snd (load_ratings_file pf lines s)) n"
    by (simp add: ratings_entry_ok_def load_ratings_file_fields)
  moreover have "ratings_entry_ok (clear s) n"
    by (simp add: ratings_entry_ok_def clear_def empty_store_def)
  ultimately show ?thesis by (simp add: load_movies_file_ratings)
qed

section \<open>Ratings stay between 0 and 5\<close>

lemma sum_list_in_range:
  "\<forall>x \<in> set xs. 0 \<le> x \<and> x \<le> (5::real) \<Longrightarrow> 0 \<le> sum_list xs \<and> sum_list xs \<le> 5 * real (length xs)"
  by (induction xs) auto

lemma fmean_in_range:
  assumes "xs \<noteq> []" and "\<forall>x \<in> set xs. 0 \<le> x \<and> x \<le> 5"
  shows "0 \<le> fmean xs \<and> fmean xs \<le> 5"
proof -
  from assms(1) have pos: "0 < real (length xs)" by simp
  from sum_list_in_range [OF assms(2)] pos show ?thesis
    unfolding fmean_def by (simp add: pos_divide_le_eq mult.commute)
qed

lemma in_set_map_filter: "x \<in> set (List.map_filter f xs) \<longleftrightarrow> (\<exists>y \<in> set xs. f y = Some x)"
  by (induction xs) (auto simp: List.map_filter_simps split: option.splits)

lemma list_all_update:
  "list_all P d \<Longrightarrow> P (k, v) \<Longrightarrow> list_all P (AList.update k v d)"
  by (induction d) auto

lemma list_all_dict_get:
  "list_all (\<lambda>(k, v). Q v) d \<Longrightarrow> Q dflt \<Longrightarrow> Q (dict_get d k dflt)"
  using dict_get_in_set [of d k dflt] by (auto simp: list_all_iff)

lemma rating_row_in_range:
  "rating_row pf raw = Some (m, r, u) \<Longrightarrow> 0 \<le> r \<and> r \<le> 5"
  by (auto simp: rating_row_def Let_def split: if_splits list.splits option.splits)

lemma accepted_ratings_in_range:
  "(m, r, u) \<in> set (accepted_ratings pf lines) \<Longrightarrow> 0 \<le> r \<and> r \<le> 5"
  by (auto simp: accepted_ratings_def in_set_map_filter dest: rating_row_in_range)

lemma store_rating_in_range:
  assumes "list_all (\<lambda>(user_id, per_user). list_all (\<lambda>(movie_name, r). 0 \<le> r \<and> r \<le> 5) per_user) ur"
    and "0 \<le> r \<and> r \<le> 5"
  shows "list_all (\<lambda>(user_id, per_user). list_all (\<lambda>(movie_name, r). 0 \<le> r \<and> r \<le> 5) per_user)
           (store_rating (m, r, u) ur)"
proof -
  have old: "list_all (\<lambda>(movie_name, r). 0 \<le> r \<and> r \<le> 5) (dict_get ur u [])"
    by (rule list_all_dict_get [OF assms(1)]) simp
  have "list_all (\<lambda>(movie_name, r). 0 \<le> r \<and> r \<le> 5) (AList.update m r (dict_get ur u []))"
    by (rule list_all_update [OF old]) (simp add: assms(2))
  then show ?thesis
    unfolding store_rating_def prod.case by (intro list_all_update [OF assms(1)]) simp
qed

lemma fold_store_rating_in_range:
  "list_all (\<lambda>(user_id, per_user). list_all (\<lambda>(movie_name, r). 0 \<le> r \<and> r \<le> 5) per_user) ur \<Longrightarrow>
   \<forall>(m, r, u) \<in> set rows. 0 \<le> r \<and> r \<le> 5 \<Longrightarrow>
   list_all (\<lambda>(user_id, per_user). list_all (\<lambda>(movie_name, r). 0 \<le> r \<and> r \<le> 5) per_user)
     (fold store_rating rows ur)"
proof (induction rows arbitrary: ur)
  case Nil
  then show ?case by simp
next
  case (Cons row rows)
  obtain m r u where row: "row = (m, r, u)" by (cases row)
  from Cons.prems(2) have r: "0 \<le> r \<and> r \<le> 5" by (simp add: row)
  from Cons.prems(2) have rest: "\<forall>(m, r, u) \<in> set rows. 0 \<le> r \<and> r \<le> 5" by simp
  from Cons.IH [OF store_rating_in_range [OF Cons.prems(1) r] rest] show ?case by (simp add: row)
qed

lemma add_rating_in_range:
  assumes "list_all (\<lambda>(movie_name, ratings). list_all (\<lambda>r. 0 \<le> r \<and> r \<le> 5) ratings) rbm"
    and "0 \<le> snd mr \<and> snd mr \<le> 5"
  shows "list_all (\<lambda>(movie_name, ratings). list_all (\<lambda>r. 0 \<le> r \<and> r \<le> 5) ratings) (add_rating mbn mr rbm)"
proof -
  have old: "list_all (\<lambda>r. 0 \<le> r \<and> r \<le> 5) (dict_get rbm (fst mr) [])"
    by (rule list_all_dict_get [OF assms(1)]) simp
  show ?thesis
    unfolding add_rating_def using old assms by (auto intro!: list_all_update)
qed

lemma fold_add_rating_in_range:
  "list_all (\<lambda>(movie_name, ratings). list_all (\<lambda>r. 0 \<le> r \<and> r \<le> 5) ratings) rbm \<Longrightarrow>
   list_all (\<lambda>(movie_name, r). 0 \<le> r \<and> r \<le> 5) pu \<Longrightarrow>
   list_all (\<lambda>(movie_name, ratings). list_all (\<lambda>r. 0 \<le> r \<and> r \<le> 5) ratings)
     (fold (add_rating mbn) pu rbm)"
proof (induction pu arbitrary: rbm)
  case Nil
  then show ?case by simp
next
  case (Cons mr pu)
  from Cons.prems(2) have "0 \<le> snd mr \<and> snd mr \<le> 5" by (cases mr) simp
  from Cons.IH [OF add_rating_in_range [OF Cons.prems(1) this]] Cons.prems(2) show ?case by simp
qed

lemma build_ratings_by_movie_in_range_aux:
  "list_all (\<lambda>(movie_name, ratings). list_all (\<lambda>r. 0 \<le> r \<and> r \<le> 5) ratings) rbm \<Longrightarrow>
   list_all (\<lambda>(user_id, per_user). list_all (\<lambda>(movie_name, r). 0 \<le> r \<and> r \<le> 5) per_user) ur \<Longrightarrow>
   list_all (\<lambda>(movie_name, ratings). list_all (\<lambda>r. 0 \<le> r \<and> r \<le> 5) ratings)
     (fold (\<lambda>(user_id, per_user) rbm. fold (add_rating mbn) per_user rbm) ur rbm)"
proof (induction ur arbitrary: rbm)
  case Nil
  then show ?case by simp
next
  case (Cons up ur)
  obtain u pu where up: "up = (u, pu)" by (cases up)
  from Cons.prems(2) have pu: "list_all (\<lambda>(movie_name, r). 0 \<le> r \<and> r \<le> 5) pu" by (simp add: up)
  from Cons.IH [OF fold_add_rating_in_range [OF Cons.prems(1) pu]] Cons.prems(2)
  show ?case by (simp add: up)
qed

lemma load_ratings_file_in_range: "ratings_in_range (snd (load_ratings_file pf lines s))"
proof -
  have ur: "list_all (\<lambda>(user_id, per_user). list_all (\<lambda>(movie_name, r). 0 \<le> r \<and> r \<le> 5) per_user)
      (fold store_rating (accepted_ratings pf lines) [])"
    by (rule fold_store_rating_in_range) (auto dest: accepted_ratings_in_range)
  have "list_all (\<lambda>(movie_name, ratings). list_all (\<lambda>r. 0 \<le> r \<and> r \<le> 5) ratings)
      (build_ratings_by_movie (movies_by_name s) (fold store_rating (accepted_ratings pf lines) []))"
    unfolding build_ratings_by_movie_def
    by (rule build_ratings_by_movie_in_range_aux [OF _ ur]) simp
  with ur show ?thesis by (simp add: ratings_in_range_def load_ratings_file_fields)
qed

lemma run_in_range: "ratings_in_range s \<Longrightarrow> ratings_in_range (snd (run pf c s))"
proof (cases c)
  case (LoadMovies lines)
  assume "ratings_in_range s"
  then show ?thesis by (simp add: LoadMovies ratings_in_range_def load_movies_file_ratings Let_def)
next
  case (LoadRatings lines)
  then show ?thesis by (simp add: load_ratings_file_in_range Let_def)
next
  case Clear
  then show ?thesis by (simp add: ratings_in_range_def clear_def empty_store_def)
qed simp_all

lemma run_all_in_range: "ratings_in_range s \<Longrightarrow> ratings_in_range (run_all pf cmds s)"
  unfolding run_all_def by (induction cmds arbitrary: s) (simp_all add: run_in_range)

lemma reachable_in_range: "ratings_in_range (run_all pf cmds empty_store)"
  by (rule run_all_in_range) (simp add: ratings_in_range_def empty_store_def)

section \<open>Scores computed from ratings in range\<close>

lemma ratings_entry_in_range:
  assumes "ratings_in_range s"
  shows "\<forall>r \<in> set (dict_get (ratings_by_movie s) nm []). 0 \<le> r \<and> r \<le> 5"
  using dict_get_in_set [of "ratings_by_movie s" nm "[]"] assms
  by (auto simp: ratings_in_range_def list_all_iff)

lemma movie_average_rating_in_range:
  assumes "ratings_in_range s" and "movie_average_rating s nm = Some v"
  shows "0 \<le> v \<and> v \<le> 5"
proof -
  from assms(2) have ne: "dict_get (ratings_by_movie s) nm [] \<noteq> []"
    and v: "v = fmean (dict_get (ratings_by_movie s) nm [])"
    by (auto simp: movie_average_rating_def Let_def split: if_splits)
  show ?thesis unfolding v by (rule fmean_in_range [OF ne ratings_entry_in_range [OF assms(1)]])
qed

lemma average_items_in_range:
  "ratings_in_range s \<Longrightarrow> row \<in> set (average_items s names) \<Longrightarrow> 0 \<le> fst (snd row) \<and> fst (snd row) \<le> 5"
proof (induction names)
  case Nil
  then show ?case by simp
next
  case (Cons nm names)
  have "dict_get (ratings_by_movie s) nm [] \<noteq> [] \<Longrightarrow>
      0 \<le> fmean (dict_get (ratings_by_movie s) nm []) \<and> fmean (dict_get (ratings_by_movie s) nm []) \<le> 5"
    by (rule fmean_in_range [OF _ ratings_entry_in_range [OF Cons.prems(1)]])
  with Cons show ?case by (auto simp: Let_def split: if_splits)
qed

lemma set_slice_to: "set (slice_to xs n) \<subseteq> set xs"
  by (auto simp: slice_to_def split: option.splits dest: in_set_takeD)

lemma rank_movies_by_average_in_range:
  assumes "ratings_in_range s" and "row \<in> set (rank_movies_by_average s names n)"
  shows "0 \<le> fst (snd row) \<and> fst (snd row) \<le> 5"
proof -
  from assms(2) set_slice_to obtain cands where "row \<in> set (average_items s cands)"
    unfolding rank_movies_by_average_def Let_def by fastforce
  with assms(1) show ?thesis by (rule average_items_in_range)
qed

lemma rank_movies_in_genre_in_range:
  assumes "ratings_in_range s" and "row \<in> set (rank_movies_in_genre s g n)"
  shows "0 \<le> fst (snd row) \<and> fst (snd row) \<le> 5"
  using assms rank_movies_by_average_in_range
  by (auto simp: rank_movies_in_genre_def Let_def split: if_splits)

lemma genre_items_in_range:
  "ratings_in_range s \<Longrightarrow> row \<in> set (genre_items s mbg) \<Longrightarrow> 0 \<le> fst (snd row) \<and> fst (snd row) \<le> 5"
proof (induction s mbg rule: genre_items.induct)
  case (1 s)
  then show ?case by simp
next
  case (2 s g movie_names rest)
  let ?avgs = "List.map_filter (movie_average_rating s) movie_names"
  have "\<forall>v \<in> set ?avgs. 0 \<le> v \<and> v \<le> 5"
    using movie_average_rating_in_range [OF "2.prems"(1)] by (auto simp: in_set_map_filter)
  then have "?avgs \<noteq> [] \<Longrightarrow> 0 \<le> fmean ?avgs \<and> fmean ?avgs \<le> 5"
    by (rule fmean_in_range [rotated])
  with 2 show ?case by (auto simp: Let_def split: if_splits)
qed

lemma rank_genres_by_popularity_in_range:
  assumes "ratings_in_range s" and "row \<in> set (rank_genres_by_popularity s n)"
  shows "0 \<le> fst (snd row) \<and> fst (snd row) \<le> 5"
proof -
  from assms(2) set_slice_to have "row \<in> set (genre_items s (movies_by_genre s))"
    unfolding rank_genres_by_popularity_def by fastforce
  with assms(1) show ?thesis by (rule genre_items_in_range)
qed

lemma group_rating_in_range:
  assumes "list_all (\<lambda>(g, ratings). ratings \<noteq> [] \<and> list_all (\<lambda>r. 0 \<le> r \<and> r \<le> 5) ratings) by_genre"
    and "0 \<le> snd nr \<and> snd nr \<le> 5"
  shows "list_all (\<lambda>(g, ratings). ratings \<noteq> [] \<and> list_all (\<lambda>r. 0 \<le> r \<and> r \<le> 5) ratings)
           (group_rating mbn nr by_genre)"
proof (cases "map_of mbn (fst nr)")
  case None
  with assms(1) show ?thesis by (simp add: group_rating_def)
next
  case (Some mv)
  have old: "list_all (\<lambda>r. 0 \<le> r \<and> r \<le> 5) (dict_get by_genre (genre mv) [])"
    using dict_get_in_set [of by_genre "genre mv" "[]"] assms(1) by (auto simp: list_all_iff)
  show ?thesis
    unfolding group_rating_def Some option.case using old assms by (auto intro!: list_all_update)
qed

lemma fold_group_rating_in_range:
  "list_all (\<lambda>(g, ratings). ratings \<noteq> [] \<and> list_all (\<lambda>r. 0 \<le> r \<and> r \<le> 5) ratings) by_genre \<Longrightarrow>
   list_all (\<lambda>(movie_name, r). 0 \<le> r \<and> r \<le> 5) pu \<Longrightarrow>
   list_all (\<lambda>(g, ratings). ratings \<noteq> [] \<and> list_all (\<lambda>r. 0 \<le> r \<and> r \<le> 5) ratings)
     (fold (group_rating mbn) pu by_genre)"
proof (induction pu arbitrary: by_genre)
  case Nil
  then show ?case by simp
next
  case (Cons nr pu)
  from Cons.prems(2) have "0 \<le> snd nr \<and> snd nr \<le> 5" by (cases nr) simp
  from Cons.IH [OF group_rating_in_range [OF Cons.prems(1) this]] Cons.prems(2) show ?case by simp
qed

lemma user_top_genre_in_range:
  assumes "ratings_in_range s" and "user_top_genre s u = Some row"
  shows "0 \<le> fst (snd row) \<and> fst (snd row) \<le> 5"
proof -
  from assms(2) obtain pu where pu: "map_of (user_ratings s) u = Some pu"
    by (auto simp: user_top_genre_def split: option.splits)
  define by_genre where "by_genre = fold (group_rating (movies_by_name s)) pu []"
  define rows where "rows = map (\<lambda>(g, ratings). (g, fmean ratings, length ratings)) by_genre"
  from pu have "(u, pu) \<in> set (user_ratings s)" by (rule map_of_SomeD)
  with assms(1) have "list_all (\<lambda>(movie_name, r). 0 \<le> r \<and> r \<le> 5) pu"
    by (auto simp: ratings_in_range_def list_all_iff)
  then have bg: "list_all (\<lambda>(g, ratings). ratings \<noteq> [] \<and> list_all (\<lambda>r. 0 \<le> r \<and> r \<le> 5) ratings) by_genre"
    unfolding by_genre_def by (intro fold_group_rating_in_range) simp_all
  from assms(2) obtain rest where "sort_key rank_key rows = row # rest"
    by (auto simp: user_top_genre_def pu Let_def by_genre_def rows_def split: if_splits list.splits)
  then have "row \<in> set (sort_key rank_key rows)" by (metis list.set_intros(1))
  then have "row \<in> set rows" by simp
  then obtain g ratings where "(g, ratings) \<in> set by_genre" and row: "row = (g, fmean ratings, length ratings)"
    by (auto simp: rows_def)
  with bg have "ratings \<noteq> []" "\<forall>r \<in> set ratings. 0 \<le> r \<and> r \<le> 5" by (auto simp: list_all_iff)
  then show ?thesis unfolding row by (simp add: fmean_in_range)
qed

lemma recommend_for_user_in_range:
  assumes "ratings_in_range s" and "row \<in> set (recommend_for_user s u k)"
  shows "0 \<le> fst (snd row) \<and> fst (snd row) \<le> 5"
proof (cases "user_top_genre s u")
  case None
  with assms(2) show ?thesis by (simp add: recommend_for_user_take)
next
  case (Some t)
  from assms(2) have "row \<in> set (map (\<lambda>(nm, avg, cnt). (nm, avg, cnt, fst t))
      (filter (\<lambda>(nm, avg, cnt). nm \<notin> fst ` set (dict_get (user_ratings s) u []))
         (rank_movies_in_genre s (fst t) None)))"
    unfolding recommend_for_user_take Some option.case by (rule in_set_takeD)
  then obtain r3 where "r3 \<in> set (rank_movies_in_genre s (fst t) None)" and "fst (snd row) = fst (snd r3)"
    by auto
  with rank_movies_in_genre_in_range [OF assms(1)] show ?thesis by metis
qed

lemma fixture_run:
  "run_all float_of_digits [LoadMovies fixture_movies, LoadRatings fixture_ratings] empty_store = fixture_store"
  by (simp add: run_all_def fixture_store_def Let_def)

text \<open>
  Claim C10. In every store reached from the empty store by loads, clears and queries, every
  rating held in \<open>user_ratings\<close> and in \<open>ratings_by_movie\<close> lies between 0 and 5, and so
  does every mean rating and every genre score that a query returns.
\<close>

theorem ratings_and_scores_in_range:
  assumes "s = run_all pf cmds empty_store"
  shows "ratings_in_range s
    \<and> (\<forall>v. movie_average_rating s nm = Some v \<longrightarrow> 0 \<le> v \<and> v \<le> 5)
    \<and> (\<forall>row \<in> set (rank_movies_by_average s names n). 0 \<le> fst (snd row) \<and> fst (snd row) \<le> 5)
    \<and> (\<forall>row \<in> set (rank_movies_in_genre s g n). 0 \<le> fst (snd row) \<and> fst (snd row) \<le> 5)
    \<and> (\<forall>row \<in> set (rank_genres_by_popularity s n). 0 \<le> fst (snd row) \<and> fst (snd row) \<le> 5)
    \<and> (\<forall>row. user_top_genre s u = Some row \<longrightarrow> 0 \<le> fst (snd row) \<and> fst (snd row) \<le> 5)
    \<and> (\<forall>row \<in> set (recommend_for_user s u k). 0 \<le> fst (snd row) \<and> fst (snd row) \<le> 5)"
proof -
  have r: "ratings_in_range s" unfolding assms by (rule reachable_in_range)
  show ?thesis
    using r movie_average_rating_in_range [OF r] rank_movies_by_average_in_range [OF r]
      rank_movies_in_genre_in_range [OF r] rank_genres_by_popularity_in_range [OF r]
      user_top_genre_in_range [OF r] recommend_for_user_in_range [OF r]
    by blast
qed

theorem ratings_and_scores_in_range_witness:
  "fixture_store = run_all float_of_digits [LoadMovies fixture_movies, LoadRatings fixture_ratings] empty_store
   \<and> ratings_in_range fixture_store
   \<and> list_all (\<lambda>row. 0 \<le> fst (snd row) \<and> fst (snd row) \<le> 5) (rank_genres_by_popularity fixture_store None)
   \<and> rank_genres_by_popularity fixture_store None =
       [(''Comedy'', 9/2, 1), (''Action'', 17/4, 2), (''Drama'', 10/3, 2)]"
  using ratings_and_scores_in_range [of fixture_store float_of_digits
      "[LoadMovies fixture_movies, LoadRatings fixture_ratings]" "''Alpha (2001)''" None None "''Action''" "''u1''" 3]
  by (simp add: fixture_run list_all_iff fixture_top_genres)



section \<open>Rankings do not depend on the order of the input rows\<close>

lemma mset_map_filter_cong:
  "mset xs = mset ys \<Longrightarrow> mset (List.map_filter f xs) = mset (List.map_filter f ys)"
proof -
  assume "mset xs = mset ys"
  then have "image_mset (the \<circ> f) (filter_mset (\<lambda>x. f x \<noteq> None) (mset xs)) =
             image_mset (the \<circ> f) (filter_mset (\<lambda>x. f x \<noteq> None) (mset ys))" by simp
  then show ?thesis by (simp add: List.map_filter_def)
qed

lemma fmean_mset_cong: "mset xs = mset ys \<Longrightarrow> fmean xs = fmean ys"
proof -
  assume eq: "mset xs = mset ys"
  then have "sum_mset (mset xs) = sum_mset (mset ys)" and "size (mset xs) = size (mset ys)" by simp_all
  then show ?thesis by (simp add: fmean_def sum_mset_sum_list)
qed

lemma inj_rank_key: "inj rank_key"
  by (auto simp: inj_on_def rank_key_def prod_eq_iff)

lemma sort_rows_cong:
  assumes "distinct xs" and "distinct ys" and "set xs = set ys"
  shows "sort_key rank_key xs = sort_key rank_key ys"
proof (rule sort_key_eq_sort_key)
  from assms show "mset xs = mset ys" by (simp add: set_eq_iff_mset_eq_distinct)
  show "inj_on rank_key (set xs)" using inj_rank_key by (rule inj_on_subset) simp
qed

subsection \<open>Rows of the movie ranking\<close>

lemma map_fst_average_items:
  "map fst (average_items s cands) = filter (\<lambda>nm. dict_get (ratings_by_movie s) nm [] \<noteq> []) cands"
  by (induction cands) (simp_all add: Let_def)

lemma distinct_average_items: "distinct cands \<Longrightarrow> distinct (average_items s cands)"
proof -
  assume "distinct cands"
  then have "distinct (map fst (average_items s cands))" by (simp add: map_fst_average_items)
  then show ?thesis by (simp add: distinct_map)
qed

lemma set_average_items:
  "set (average_items s cands) =
     (\<lambda>nm. (nm, fmean (dict_get (ratings_by_movie s) nm []), length (dict_get (ratings_by_movie s) nm [])))
       ` {nm \<in> set cands. dict_get (ratings_by_movie s) nm [] \<noteq> []}"
  by (induction cands) (auto simp: Let_def)

lemma average_items_cong:
  assumes same: "\<And>nm. mset (dict_get (ratings_by_movie s1) nm []) = mset (dict_get (ratings_by_movie s2) nm [])"
    and cands: "{nm \<in> set c1. dict_get (ratings_by_movie s1) nm [] \<noteq> []}
              = {nm \<in> set c2. dict_get (ratings_by_movie s1) nm [] \<noteq> []}"
  shows "set (average_items s1 c1) = set (average_items s2 c2)"
proof -
  have ne: "dict_get (ratings_by_movie s2) nm [] \<noteq> [] \<longleftrightarrow> dict_get (ratings_by_movie s1) nm [] \<noteq> []" for nm
    using same [of nm] by (metis mset_zero_iff)
  have row: "(nm, fmean (dict_get (ratings_by_movie s2) nm []), length (dict_get (ratings_by_movie s2) nm []))
      = (nm, fmean (dict_get (ratings_by_movie s1) nm []), length (dict_get (ratings_by_movie s1) nm []))" for nm
    using same [of nm] fmean_mset_cong [OF same [of nm]] by (metis size_mset)
  show ?thesis unfolding set_average_items ne row cands ..
qed


subsection \<open>Rows of the genre ranking\<close>

lemma movie_average_rating_cong:
  assumes "\<And>nm. mset (dict_get (ratings_by_movie s1) nm []) = mset (dict_get (ratings_by_movie s2) nm [])"
  shows "movie_average_rating s1 = movie_average_rating s2"
proof
  fix nm
  have "dict_get (ratings_by_movie s2) nm [] = [] \<longleftrightarrow> dict_get (ratings_by_movie s1) nm [] = []"
    using assms [of nm] by (metis mset_zero_iff)
  then show "movie_average_rating s1 nm = movie_average_rating s2 nm"
    using fmean_mset_cong [OF assms [of nm]] by (simp add: movie_average_rating_def)
qed

lemma map_fst_genre_items:
  "map fst (genre_items s mbg) =
     map fst (filter (\<lambda>(g, movie_names). List.map_filter (movie_average_rating s) movie_names \<noteq> []) mbg)"
  by (induction s mbg rule: genre_items.induct) (simp_all add: Let_def)

lemma distinct_genre_items: "distinct (map fst mbg) \<Longrightarrow> distinct (genre_items s mbg)"
proof -
  assume "distinct (map fst mbg)"
  then have "distinct (map fst (genre_items s mbg))"
    unfolding map_fst_genre_items by (rule distinct_map_filter)
  then show ?thesis by (simp add: distinct_map)
qed

lemma in_set_genre_items:
  "row \<in> set (genre_items s mbg) \<longleftrightarrow>
     (\<exists>g movie_names. (g, movie_names) \<in> set mbg
        \<and> List.map_filter (movie_average_rating s) movie_names \<noteq> []
        \<and> row = (g, fmean (List.map_filter (movie_average_rating s) movie_names),
                     length (List.map_filter (movie_average_rating s) movie_names)))"
  by (induction s mbg rule: genre_items.induct) (auto simp: Let_def)

lemma genre_items_subset:
  assumes mar: "movie_average_rating s1 = movie_average_rating s2"
    and names: "\<And>g names1. (g, names1) \<in> set mbg1 \<Longrightarrow> \<exists>names2. (g, names2) \<in> set mbg2 \<and> mset names1 = mset names2"
  shows "set (genre_items s1 mbg1) \<subseteq> set (genre_items s2 mbg2)"
proof
  fix row assume "row \<in> set (genre_items s1 mbg1)"
  then obtain g names1 where in1: "(g, names1) \<in> set mbg1"
    and ne: "List.map_filter (movie_average_rating s2) names1 \<noteq> []"
    and row: "row = (g, fmean (List.map_filter (movie_average_rating s2) names1),
                        length (List.map_filter (movie_average_rating s2) names1))"
    unfolding in_set_genre_items mar by blast
  from names [OF in1] obtain names2 where in2: "(g, names2) \<in> set mbg2" and ms: "mset names1 = mset names2"
    by blast
  have avgs: "mset (List.map_filter (movie_average_rating s2) names1)
      = mset (List.map_filter (movie_average_rating s2) names2)"
    using ms by (rule mset_map_filter_cong)
  from avgs ne have ne2: "List.map_filter (movie_average_rating s2) names2 \<noteq> []"
    by (metis mset_zero_iff)
  from avgs have "length (List.map_filter (movie_average_rating s2) names1)
      = length (List.map_filter (movie_average_rating s2) names2)" by (metis size_mset)
  with fmean_mset_cong [OF avgs] row
  have "row = (g, fmean (List.map_filter (movie_average_rating s2) names2),
                  length (List.map_filter (movie_average_rating s2) names2))" by simp
  with in2 ne2 show "row \<in> set (genre_items s2 mbg2)" unfolding in_set_genre_items by blast
qed

lemma genre_index_entry:
  assumes d1: "distinct (map fst mbg1)" and d2: "distinct (map fst mbg2)"
    and keys: "fst ` set mbg1 = fst ` set mbg2"
    and vals: "\<And>g. mset (dict_get mbg1 g []) = mset (dict_get mbg2 g [])"
    and in1: "(g, names1) \<in> set mbg1"
  shows "\<exists>names2. (g, names2) \<in> set mbg2 \<and> mset names1 = mset names2"
proof -
  from in1 d1 have "map_of mbg1 g = Some names1" by simp
  then have g1: "dict_get mbg1 g [] = names1" by (simp add: dict_get_def)
  from in1 keys have "g \<in> fst ` set mbg2" by force
  then obtain names2 where m2: "map_of mbg2 g = Some names2"
    by (metis map_of_eq_None_iff not_None_eq)
  then have "(g, names2) \<in> set mbg2" and "dict_get mbg2 g [] = names2"
    by (simp_all add: map_of_SomeD dict_get_def)
  with vals [of g] g1 show ?thesis by auto
qed

lemma genre_items_cong:
  assumes same: "\<And>nm. mset (dict_get (ratings_by_movie s1) nm []) = mset (dict_get (ratings_by_movie s2) nm [])"
    and d1: "distinct (map fst (movies_by_genre s1))" and d2: "distinct (map fst (movies_by_genre s2))"
    and keys: "fst ` set (movies_by_genre s1) = fst ` set (movies_by_genre s2)"
    and names: "\<And>g. mset (dict_get (movies_by_genre s1) g []) = mset (dict_get (movies_by_genre s2) g [])"
  shows "set (genre_items s1 (movies_by_genre s1)) = set (genre_items s2 (movies_by_genre s2))"
proof
  have mar: "movie_average_rating s1 = movie_average_rating s2"
    using same by (rule movie_average_rating_cong)
  show "set (genre_items s1 (movies_by_genre s1)) \<subseteq> set (genre_items s2 (movies_by_genre s2))"
    using mar genre_index_entry [OF d1 d2 keys names] by (rule genre_items_subset)
  show "set (genre_items s2 (movies_by_genre s2)) \<subseteq> set (genre_items s1 (movies_by_genre s1))"
    using mar [symmetric] genre_index_entry [OF d2 d1 keys [symmetric] names [symmetric]]
    by (rule genre_items_subset)
qed


subsection \<open>The movie indexes after a load\<close>

lemma fold_load_movies_line:
  "fst (fold load_movies_line lines sc) = fold store_movie (accepted_movies lines) (fst sc)"
  by (induction lines arbitrary: sc)
    (auto simp: accepted_movies_def load_movies_line_def List.map_filter_simps split: option.splits)

lemma load_movies_file_store:
  "snd (load_movies_file lines s) =
     fold store_movie (accepted_movies lines) (s\<lparr>movies_by_name := [], movies_by_genre := []\<rparr>)"
  by (simp add: load_movies_file_def Let_def fold_load_movies_line)

lemma set_set_add: "set (set_add x xs) = insert x (set xs)"
  by (auto simp: set_add_def)

lemma distinct_set_add: "distinct (set_add x xs) = distinct xs"
  by (simp add: set_add_def)

lemma fold_store_movie_names:
  "fst ` set (movies_by_name (fold store_movie A s)) = fst ` set (movies_by_name s) \<union> name ` set A"
  by (induction A arbitrary: s) (auto simp: store_movie_def dom_update)

lemma fold_store_movie_genre_keys:
  "fst ` set (movies_by_genre (fold store_movie A s)) = fst ` set (movies_by_genre s) \<union> genre ` set A"
  by (induction A arbitrary: s) (auto simp: store_movie_def dom_update)

lemma fold_store_movie_genre_distinct:
  "distinct (map fst (movies_by_genre s)) \<Longrightarrow> distinct (map fst (movies_by_genre (fold store_movie A s)))"
  by (induction A arbitrary: s) (simp_all add: store_movie_def distinct_update)

lemma fold_store_movie_genre_set:
  "set (dict_get (movies_by_genre (fold store_movie A s)) g []) =
     set (dict_get (movies_by_genre s) g []) \<union> name ` {m \<in> set A. genre m = g}"
  by (induction A arbitrary: s) (auto simp: store_movie_def dict_get_update set_set_add)

lemma fold_store_movie_genre_names_distinct:
  "(\<And>g. distinct (dict_get (movies_by_genre s) g [])) \<Longrightarrow>
   distinct (dict_get (movies_by_genre (fold store_movie A s)) g [])"
proof (induction A arbitrary: s)
  case Nil
  then show ?case by simp
next
  case (Cons m A)
  have "distinct (dict_get (movies_by_genre (store_movie m s)) g' [])" for g'
    using Cons.prems [of g'] by (auto simp: store_movie_def dict_get_update distinct_set_add)
  then show ?case using Cons.IH [of "store_movie m s"] by simp
qed

subsection \<open>The rating indexes after a load\<close>

lemma update_new_key: "k \<notin> fst ` set d \<Longrightarrow> AList.update k v d = d @ [(k, v)]"
  by (induction d) auto

lemma rating_rows_update:
  "mset (rating_rows (AList.update u pu ur))
     + mset (map (\<lambda>(movie_name, r). (movie_name, r, u)) (dict_get ur u []))
   = mset (rating_rows ur) + mset (map (\<lambda>(movie_name, r). (movie_name, r, u)) pu)"
  by (induction ur) (auto simp: rating_rows_def dict_get_def)

lemma rating_rows_store_rating:
  assumes "map_of (dict_get ur u []) m = None"
  shows "mset (rating_rows (store_rating (m, r, u) ur)) = add_mset (m, r, u) (mset (rating_rows ur))"
proof -
  from assms have "m \<notin> fst ` set (dict_get ur u [])" by (simp add: map_of_eq_None_iff)
  then have "AList.update m r (dict_get ur u []) = dict_get ur u [] @ [(m, r)]" by (rule update_new_key)
  with rating_rows_update [of u "AList.update m r (dict_get ur u [])" ur]
  show ?thesis by (simp add: store_rating_def)
qed

lemma rating_rows_fold_store_rating:
  "distinct (map (\<lambda>(m, r, u). (u, m)) rows) \<Longrightarrow>
   (\<lambda>(m, r, u). (u, m)) ` set rows \<inter> rated_pairs ur = {} \<Longrightarrow>
   mset (rating_rows (fold store_rating rows ur)) = mset rows + mset (rating_rows ur)"
proof (induction rows arbitrary: ur)
  case Nil
  show ?case by simp
next
  case (Cons row rows)
  obtain m r u where row: "row = (m, r, u)" by (cases row)
  from Cons.prems(2) have "(u, m) \<notin> rated_pairs ur" by (auto simp: row)
  then have new: "map_of (dict_get ur u []) m = None" by (simp add: rated_pairs_def)
  from Cons.prems have d: "distinct (map (\<lambda>(m, r, u). (u, m)) rows)"
    and fresh: "(\<lambda>(m, r, u). (u, m)) ` set rows \<inter> rated_pairs (store_rating row ur) = {}"
    by (auto simp: row rated_pairs_store_rating)
  from Cons.IH [OF d fresh] show ?case
    by (simp add: row rating_rows_store_rating [OF new])
qed

lemma ratings_of_rating_rows:
  "concat (map (\<lambda>(user_id, per_user). map snd (filter (\<lambda>(m, r). m = n) per_user)) ur) =
     map (\<lambda>row. fst (snd row)) (filter (\<lambda>row. fst row = n) (rating_rows ur))"
proof (induction ur)
  case Nil
  show ?case by (simp add: rating_rows_def)
next
  case (Cons up ur)
  obtain u pu where up: "up = (u, pu)" by (cases up)
  have "map snd (filter (\<lambda>(m, r). m = n) pu) =
      map (\<lambda>row. fst (snd row)) (filter (\<lambda>row. fst row = n) (map (\<lambda>(movie_name, r). (movie_name, r, u)) pu))"
    by (induction pu) auto
  with Cons.IH show ?case by (simp add: up rating_rows_def)
qed

lemma build_ratings_by_movie_get:
  "dict_get (build_ratings_by_movie mbn ur) n [] =
     (if n \<in> fst ` set mbn
      then map (\<lambda>row. fst (snd row)) (filter (\<lambda>row. fst row = n) (rating_rows ur))
      else [])"
  by (simp add: build_ratings_by_movie_def fold_users_get dict_get_Nil ratings_of_rating_rows)

lemma add_rating_distinct: "distinct (map fst rbm) \<Longrightarrow> distinct (map fst (add_rating mbn mr rbm))"
  by (simp add: add_rating_def distinct_update)

lemma fold_add_rating_distinct:
  "distinct (map fst rbm) \<Longrightarrow> distinct (map fst (fold (add_rating mbn) pu rbm))"
  by (induction pu arbitrary: rbm) (simp_all add: add_rating_distinct)

lemma build_ratings_by_movie_distinct_aux:
  "distinct (map fst rbm) \<Longrightarrow>
   distinct (map fst (fold (\<lambda>(user_id, per_user) rbm. fold (add_rating mbn) per_user rbm) ur rbm))"
  by (induction ur arbitrary: rbm) (auto simp: fold_add_rating_distinct)

lemma build_ratings_by_movie_distinct: "distinct (map fst (build_ratings_by_movie mbn ur))"
  unfolding build_ratings_by_movie_def by (rule build_ratings_by_movie_distinct_aux) simp

lemma dict_get_nonempty_key: "dict_get d k [] \<noteq> [] \<Longrightarrow> k \<in> fst ` set d"
  by (cases "map_of d k") (force simp: dict_get_def dest: map_of_SomeD)+


subsection \<open>Two loads of permuted inputs\<close>

lemma loaded_genre_index:
  "distinct (map fst (movies_by_genre (snd (load_ratings_file pf rating_lines (snd (load_movies_file movie_lines t))))))"
  "fst ` set (movies_by_genre (snd (load_ratings_file pf rating_lines (snd (load_movies_file movie_lines t))))) = genre ` set (accepted_movies movie_lines)"
  "set (dict_get (movies_by_genre (snd (load_ratings_file pf rating_lines (snd (load_movies_file movie_lines t))))) g []) = name ` {m \<in> set (accepted_movies movie_lines). genre m = g}"
  "distinct (dict_get (movies_by_genre (snd (load_ratings_file pf rating_lines (snd (load_movies_file movie_lines t))))) g [])"
proof -
  let ?t0 = "t\<lparr>movies_by_name := [], movies_by_genre := []\<rparr>"
  have mbg: "movies_by_genre (snd (load_ratings_file pf rating_lines (snd (load_movies_file movie_lines t)))) = movies_by_genre (fold store_movie (accepted_movies movie_lines) ?t0)"
    by (simp add: load_ratings_file_fields load_movies_file_store)
  show "distinct (map fst (movies_by_genre (snd (load_ratings_file pf rating_lines (snd (load_movies_file movie_lines t))))))"
    unfolding mbg by (rule fold_store_movie_genre_distinct) simp
  show "fst ` set (movies_by_genre (snd (load_ratings_file pf rating_lines (snd (load_movies_file movie_lines t))))) = genre ` set (accepted_movies movie_lines)"
    unfolding mbg by (simp add: fold_store_movie_genre_keys)
  show "set (dict_get (movies_by_genre (snd (load_ratings_file pf rating_lines (snd (load_movies_file movie_lines t))))) g []) = name ` {m \<in> set (accepted_movies movie_lines). genre m = g}"
    unfolding mbg by (simp add: fold_store_movie_genre_set dict_get_Nil)
  show "distinct (dict_get (movies_by_genre (snd (load_ratings_file pf rating_lines (snd (load_movies_file movie_lines t))))) g [])"
    unfolding mbg by (rule fold_store_movie_genre_names_distinct) (simp add: dict_get_Nil)
qed

lemma loaded_ratings_index:
  assumes "distinct (map (\<lambda>(m, r, u). (u, m)) (accepted_ratings pf rating_lines))"
  shows "mset (dict_get (ratings_by_movie (snd (load_ratings_file pf rating_lines (snd (load_movies_file movie_lines t))))) n []) =
           (if n \<in> name ` set (accepted_movies movie_lines)
            then image_mset (\<lambda>row. fst (snd row))
                   (filter_mset (\<lambda>row. fst row = n) (mset (accepted_ratings pf rating_lines)))
            else {#})"
    and "distinct (map fst (ratings_by_movie (snd (load_ratings_file pf rating_lines (snd (load_movies_file movie_lines t))))))"
proof -
  let ?ur = "fold store_rating (accepted_ratings pf rating_lines) []"
  have keys: "fst ` set (movies_by_name (snd (load_movies_file movie_lines t)))
      = name ` set (accepted_movies movie_lines)"
    by (simp add: load_movies_file_store fold_store_movie_names)
  have rows: "mset (rating_rows ?ur) = mset (accepted_ratings pf rating_lines)"
    using rating_rows_fold_store_rating [OF assms, of "[]"]
    by (simp add: rated_pairs_Nil rating_rows_def)
  have "mset (map (\<lambda>row. fst (snd row)) (filter (\<lambda>row. fst row = n) (rating_rows ?ur))) =
      image_mset (\<lambda>row. fst (snd row)) (filter_mset (\<lambda>row. fst row = n) (mset (accepted_ratings pf rating_lines)))"
    by (simp add: rows [symmetric])
  then show "mset (dict_get (ratings_by_movie (snd (load_ratings_file pf rating_lines (snd (load_movies_file movie_lines t))))) n []) =
           (if n \<in> name ` set (accepted_movies movie_lines)
            then image_mset (\<lambda>row. fst (snd row))
                   (filter_mset (\<lambda>row. fst row = n) (mset (accepted_ratings pf rating_lines)))
            else {#})"
    by (simp add: load_ratings_file_fields build_ratings_by_movie_get keys)
  show "distinct (map fst (ratings_by_movie (snd (load_ratings_file pf rating_lines (snd (load_movies_file movie_lines t))))))"
    by (simp add: load_ratings_file_fields build_ratings_by_movie_distinct)
qed

text \<open>
  Claim C8. Take two movies inputs whose rows are permutations of each other and two ratings
  inputs whose rows are permutations of each other, with at most one accepted row for each
  pair of user and movie. Loading one pair of inputs and loading the other give stores on
  which the ranking of all movies, the ranking of the movies of any genre and the ranking
  of the genres return the same lists, for every limit. The sort key is injective on rows
  (\<open>inj_rank_key\<close>), so the sorted list is fixed by the set of rows (\<open>sort_rows_cong\<close>).
  Unique movie names are not needed for this.
\<close>

theorem ranking_independent_of_row_order:
  assumes movies: "mset movie_lines' = mset movie_lines"
    and ratings: "mset rating_lines' = mset rating_lines"
    and unique: "distinct (map (\<lambda>(movie_name, rating, user_id). (user_id, movie_name))
                   (accepted_ratings pf rating_lines))"
    and s1: "s1 = snd (load_ratings_file pf rating_lines (snd (load_movies_file movie_lines t)))"
    and s2: "s2 = snd (load_ratings_file pf rating_lines' (snd (load_movies_file movie_lines' t')))"
  shows "rank_movies_by_average s1 None n = rank_movies_by_average s2 None n
    \<and> rank_movies_in_genre s1 g n = rank_movies_in_genre s2 g n
    \<and> rank_genres_by_popularity s1 n = rank_genres_by_popularity s2 n"
proof -
  have A: "mset (accepted_movies movie_lines') = mset (accepted_movies movie_lines)"
    unfolding accepted_movies_def using movies by (rule mset_map_filter_cong)
  then have setA: "set (accepted_movies movie_lines') = set (accepted_movies movie_lines)"
    by (rule mset_eq_setD)
  have R: "mset (accepted_ratings pf rating_lines') = mset (accepted_ratings pf rating_lines)"
    unfolding accepted_ratings_def using ratings by (rule mset_map_filter_cong)
  then have "mset (map (\<lambda>(m, r, u). (u, m)) (accepted_ratings pf rating_lines'))
      = mset (map (\<lambda>(m, r, u). (u, m)) (accepted_ratings pf rating_lines))" by simp
  from mset_eq_imp_distinct_iff [OF this] unique
  have unique': "distinct (map (\<lambda>(m, r, u). (u, m)) (accepted_ratings pf rating_lines'))"
    by simp
  have same: "mset (dict_get (ratings_by_movie s1) nm []) = mset (dict_get (ratings_by_movie s2) nm [])" for nm
    by (simp only: s1 s2 loaded_ratings_index(1) [OF unique] loaded_ratings_index(1) [OF unique'] R setA)
  have d1: "distinct (map fst (ratings_by_movie s1))" and d2: "distinct (map fst (ratings_by_movie s2))"
    unfolding s1 s2 by (rule loaded_ratings_index(2) [OF unique], rule loaded_ratings_index(2) [OF unique'])
  have ne: "dict_get (ratings_by_movie s2) nm [] \<noteq> [] \<longleftrightarrow> dict_get (ratings_by_movie s1) nm [] \<noteq> []" for nm
  proof -
    have "mset (dict_get (ratings_by_movie s2) nm []) = {#} \<longleftrightarrow> mset (dict_get (ratings_by_movie s1) nm []) = {#}"
      by (simp only: same [of nm])
    then show ?thesis by (simp only: mset_zero_iff)
  qed
  have gd1: "distinct (map fst (movies_by_genre s1))" and gd2: "distinct (map fst (movies_by_genre s2))"
    unfolding s1 s2 by (rule loaded_genre_index(1))+
  have gkeys: "fst ` set (movies_by_genre s1) = fst ` set (movies_by_genre s2)"
    by (simp only: s1 s2 loaded_genre_index(2) setA)
  have gset: "set (dict_get (movies_by_genre s1) g' []) = set (dict_get (movies_by_genre s2) g' [])" for g'
    by (simp only: s1 s2 loaded_genre_index(3) setA)
  have gdist1: "distinct (dict_get (movies_by_genre s1) g' [])"
    and gdist2: "distinct (dict_get (movies_by_genre s2) g' [])" for g'
    unfolding s1 s2 by (rule loaded_genre_index(4))+
  have gmset: "mset (dict_get (movies_by_genre s1) g' []) = mset (dict_get (movies_by_genre s2) g' [])" for g'
    using gset [of g'] set_eq_iff_mset_eq_distinct [OF gdist1 [of g'] gdist2 [of g']] by blast

  have "{nm \<in> set (map fst (ratings_by_movie s1)). dict_get (ratings_by_movie s1) nm [] \<noteq> []}
      = {nm \<in> set (map fst (ratings_by_movie s2)). dict_get (ratings_by_movie s1) nm [] \<noteq> []}"
  proof -
    have "nm \<in> set (map fst (ratings_by_movie s1)) \<longleftrightarrow> nm \<in> set (map fst (ratings_by_movie s2))"
      if "dict_get (ratings_by_movie s1) nm [] \<noteq> []" for nm
      using that dict_get_nonempty_key [of "ratings_by_movie s1" nm]
        dict_get_nonempty_key [of "ratings_by_movie s2" nm] ne [of nm] by simp
    then show ?thesis by blast
  qed
  then have "set (average_items s1 (map fst (ratings_by_movie s1)))
      = set (average_items s2 (map fst (ratings_by_movie s2)))"
    by (rule average_items_cong [OF same])
  then have "sort_key rank_key (average_items s1 (map fst (ratings_by_movie s1)))
      = sort_key rank_key (average_items s2 (map fst (ratings_by_movie s2)))"
    by (intro sort_rows_cong distinct_average_items d1 d2)
  then have all: "rank_movies_by_average s1 None n = rank_movies_by_average s2 None n"
    by (simp add: rank_movies_by_average_def)

  have "set (average_items s1 (dict_get (movies_by_genre s1) g []))
      = set (average_items s2 (dict_get (movies_by_genre s2) g []))"
    by (rule average_items_cong [OF same]) (simp add: gset)
  then have "sort_key rank_key (average_items s1 (dict_get (movies_by_genre s1) g []))
      = sort_key rank_key (average_items s2 (dict_get (movies_by_genre s2) g []))"
    by (intro sort_rows_cong distinct_average_items gdist1 gdist2)
  moreover have "dict_get (movies_by_genre s1) g [] = [] \<longleftrightarrow> dict_get (movies_by_genre s2) g [] = []"
    using gset [of g] by (simp only: set_empty [symmetric])
  ultimately have in_genre: "rank_movies_in_genre s1 g n = rank_movies_in_genre s2 g n"
    by (simp add: rank_movies_in_genre_def rank_movies_by_average_def)

  have "set (genre_items s1 (movies_by_genre s1)) = set (genre_items s2 (movies_by_genre s2))"
    using same gd1 gd2 gkeys gmset by (rule genre_items_cong)
  then have "sort_key rank_key (genre_items s1 (movies_by_genre s1))
      = sort_key rank_key (genre_items s2 (movies_by_genre s2))"
    by (intro sort_rows_cong distinct_genre_items gd1 gd2)
  then have genres: "rank_genres_by_popularity s1 n = rank_genres_by_popularity s2 n"
    by (simp add: rank_genres_by_popularity_def)
  from all in_genre genres show ?thesis by simp
qed


theorem ranking_independent_of_row_order_witness:
  "mset [''Drama|m2|Beta'', ''Action|m1|Alpha''] = mset [''Action|m1|Alpha'', ''Drama|m2|Beta'']
   \<and> mset [''Alpha|3|u2'', ''Alpha|5|u1'', ''Beta|4|u1''] = mset [''Alpha|5|u1'', ''Beta|4|u1'', ''Alpha|3|u2'']
   \<and> distinct (map (\<lambda>(movie_name, rating, user_id). (user_id, movie_name))
        (accepted_ratings float_of_digits [''Alpha|5|u1'', ''Beta|4|u1'', ''Alpha|3|u2'']))
   \<and> rank_movies_by_average
        (snd (load_ratings_file float_of_digits [''Alpha|5|u1'', ''Beta|4|u1'', ''Alpha|3|u2'']
           (snd (load_movies_file [''Action|m1|Alpha'', ''Drama|m2|Beta''] empty_store)))) None None
     = rank_movies_by_average
        (snd (load_ratings_file float_of_digits [''Alpha|3|u2'', ''Alpha|5|u1'', ''Beta|4|u1'']
           (snd (load_movies_file [''Drama|m2|Beta'', ''Action|m1|Alpha''] empty_store)))) None None
   \<and> rank_genres_by_popularity
        (snd (load_ratings_file float_of_digits [''Alpha|5|u1'', ''Beta|4|u1'', ''Alpha|3|u2'']
           (snd (load_movies_file [''Action|m1|Alpha'', ''Drama|m2|Beta''] empty_store)))) None
     = rank_genres_by_popularity
        (snd (load_ratings_file float_of_digits [''Alpha|3|u2'', ''Alpha|5|u1'', ''Beta|4|u1'']
           (snd (load_movies_file [''Drama|m2|Beta'', ''Action|m1|Alpha''] empty_store)))) None"
proof -
  have m: "mset [''Drama|m2|Beta'', ''Action|m1|Alpha''] = mset [''Action|m1|Alpha'', ''Drama|m2|Beta'']"
    by simp
  have r: "mset [''Alpha|3|u2'', ''Alpha|5|u1'', ''Beta|4|u1''] = mset [''Alpha|5|u1'', ''Beta|4|u1'', ''Alpha|3|u2'']"
    by simp
  have d: "distinct (map (\<lambda>(movie_name, rating, user_id). (user_id, movie_name))
        (accepted_ratings float_of_digits [''Alpha|5|u1'', ''Beta|4|u1'', ''Alpha|3|u2'']))"
    by code_simp
  from ranking_independent_of_row_order [where t = empty_store and t' = empty_store and n = None
      and g = "''Action''", OF m r d refl refl] m r d
  show ?thesis by blast
qed

lemma permuted_load_example:
  "rank_movies_by_average
        (snd (load_ratings_file float_of_digits [''Alpha|3|u2'', ''Alpha|5|u1'', ''Beta|4|u1'']
           (snd (load_movies_file [''Drama|m2|Beta'', ''Action|m1|Alpha''] empty_store)))) None None
     = [(''Alpha'', 4, 2), (''Beta'', 4, 1)]"
  by code_simp



section \<open>The genre index when movie names are unique\<close>

text \<open>
  When no two accepted movie rows share a name, \<open>movies_by_genre\<close> is the index derived
  from \<open>movies_by_name\<close>, and the ranking of a genre returns movies of that genre only. The
  stale entries shown for claims C2 and C3 need a repeated movie name.
\<close>

lemma map_of_fold_store_movie:
  "map_of (movies_by_name (fold store_movie A s)) =
     map_of (movies_by_name s) ++ map_of (rev (map (\<lambda>m. (name m, m)) A))"
proof (induction A arbitrary: s)
  case Nil
  show ?case by simp
next
  case (Cons m A)
  have "map_of (movies_by_name (store_movie m s)) = map_of (movies_by_name s) ++ [name m \<mapsto> m]"
    by (simp add: store_movie_def update_conv')
  then show ?case by (simp add: Cons.IH map_add_assoc del: map_add_upd)
qed

lemma movies_by_name_unique_names:
  assumes "distinct (map name (accepted_movies lines))"
  shows "map_of (movies_by_name (snd (load_movies_file lines s))) n = Some m
     \<longleftrightarrow> m \<in> set (accepted_movies lines) \<and> name m = n"
proof -
  have "map fst (map (\<lambda>m. (name m, m)) (accepted_movies lines)) = map name (accepted_movies lines)"
    by simp
  with assms have "distinct (map fst (rev (map (\<lambda>m. (name m, m)) (accepted_movies lines))))"
    by (simp only: rev_map [symmetric] distinct_rev)
  then have "map_of (rev (map (\<lambda>m. (name m, m)) (accepted_movies lines))) n = Some m
      \<longleftrightarrow> (n, m) \<in> set (rev (map (\<lambda>m. (name m, m)) (accepted_movies lines)))"
    by (rule map_of_eq_Some_iff)
  then show ?thesis
    by (auto simp: load_movies_file_store map_of_fold_store_movie)
qed

lemma genre_index_unique_names:
  assumes "distinct (map name (accepted_movies lines))"
  shows "set (dict_get (movies_by_genre (snd (load_movies_file lines s))) g []) =
           {n. \<exists>m. map_of (movies_by_name (snd (load_movies_file lines s))) n = Some m \<and> genre m = g}"
    and "g \<in> fst ` set (movies_by_genre (snd (load_movies_file lines s))) \<longleftrightarrow>
           (\<exists>n m. map_of (movies_by_name (snd (load_movies_file lines s))) n = Some m \<and> genre m = g)"
proof -
  show "set (dict_get (movies_by_genre (snd (load_movies_file lines s))) g []) =
           {n. \<exists>m. map_of (movies_by_name (snd (load_movies_file lines s))) n = Some m \<and> genre m = g}"
    unfolding movies_by_name_unique_names [OF assms]
    by (auto simp: load_movies_file_store fold_store_movie_genre_set dict_get_Nil)
  show "g \<in> fst ` set (movies_by_genre (snd (load_movies_file lines s))) \<longleftrightarrow>
           (\<exists>n m. map_of (movies_by_name (snd (load_movies_file lines s))) n = Some m \<and> genre m = g)"
    unfolding movies_by_name_unique_names [OF assms]
    by (auto simp: load_movies_file_store fold_store_movie_genre_keys)
qed

lemma genre_ranking_unique_names:
  assumes "distinct (map name (accepted_movies movie_lines))"
    and "row \<in> set (rank_movies_in_genre
           (snd (load_ratings_file pf rating_lines (snd (load_movies_file movie_lines s)))) g n)"
  shows "\<exists>m. map_of (movies_by_name
           (snd (load_ratings_file pf rating_lines (snd (load_movies_file movie_lines s))))) (fst row) = Some m
         \<and> genre m = g"
proof -
  let ?M = "snd (load_movies_file movie_lines s)"
  let ?S = "snd (load_ratings_file pf rating_lines ?M)"
  from assms(2) have "row \<in> set (average_items ?S (dict_get (movies_by_genre ?S) g []))"
    using set_slice_to by (fastforce simp: rank_movies_in_genre_def rank_movies_by_average_def Let_def split: if_splits)
  then have "fst row \<in> set (dict_get (movies_by_genre ?M) g [])"
    by (auto simp: set_average_items load_ratings_file_fields)
  then show ?thesis
    unfolding genre_index_unique_names(1) [OF assms(1)] by (simp add: load_ratings_file_fields)
qed



section \<open>Queries leave the objects of the heap as they are\<close>

lemma extends_refl: "extends h h"
  by (simp add: extends_def)

lemma extends_trans: "extends h1 h2 \<Longrightarrow> extends h2 h3 \<Longrightarrow> extends h1 h3"
  by (auto simp: extends_def)

lemma extends_alloc: "extends h0 h \<Longrightarrow> extends h0 (alloc v h)"
  by (auto simp: extends_def alloc_def)

lemma extends_put: "extends h0 h \<Longrightarrow> next_free h0 \<le> a \<Longrightarrow> extends h0 (put a v h)"
  by (auto simp: extends_def put_def)

lemma extends_next_free: "extends h0 h \<Longrightarrow> next_free h0 \<le> next_free h"
  by (simp add: extends_def)

lemma extends_append_row: "extends h0 h \<Longrightarrow> next_free h0 \<le> a \<Longrightarrow> extends h0 (append_row a x h)"
  by (auto simp: append_row_def extends_put split: option.splits obj.splits)

lemma extends_sort_rows: "extends h0 h \<Longrightarrow> next_free h0 \<le> a \<Longrightarrow> extends h0 (sort_rows a h)"
  by (auto simp: sort_rows_def extends_put split: option.splits obj.splits)

lemma extends_append_float: "extends h0 h \<Longrightarrow> next_free h0 \<le> a \<Longrightarrow> extends h0 (append_float a x h)"
  by (auto simp: append_float_def extends_put split: option.splits obj.splits)

lemma extends_append_rec: "extends h0 h \<Longrightarrow> next_free h0 \<le> a \<Longrightarrow> extends h0 (append_rec a x h)"
  by (auto simp: append_rec_def extends_put split: option.splits obj.splits)

lemma extends_dict_store: "extends h0 h \<Longrightarrow> next_free h0 \<le> a \<Longrightarrow> extends h0 (dict_store a k r h)"
  by (auto simp: dict_store_def extends_put split: option.splits obj.splits)

lemma extends_limit_rows: "extends h0 h \<Longrightarrow> extends h0 (snd (limit_rows rows n h))"
  by (auto simp: limit_rows_def extends_alloc split: option.splits)

subsection \<open>The rankers\<close>

lemma extends_movie_average_rating_heap:
  "extends h0 h \<Longrightarrow> extends h0 (snd (movie_average_rating_heap st nm h))"
  by (simp add: movie_average_rating_heap_def Let_def extends_alloc)

lemma extends_average_items_heap:
  "extends h0 h \<Longrightarrow> next_free h0 \<le> items \<Longrightarrow> extends h0 (average_items_heap st items names h)"
proof (induction names arbitrary: h)
  case Nil
  then show ?case by simp
next
  case (Cons nm names)
  have a: "extends h0 (alloc (FloatList []) h)" using Cons.prems(1) by (rule extends_alloc)
  show ?case
    by (simp add: Let_def Cons.IH a extends_append_row Cons.prems(2))
qed

lemma extends_rank_movies_by_average_heap:
  assumes "extends h0 h"
  shows "extends h0 (snd (rank_movies_by_average_heap st movie_names n h))"
proof -
  let ?h1 = "alloc (RowList []) h"
  let ?h2 = "case movie_names of Some c \<Rightarrow> ?h1
             | None \<Rightarrow> alloc (NameList (map fst (ratings_by_movie_in ?h1 st))) ?h1"
  have items: "next_free h0 \<le> next_free h" using assms by (rule extends_next_free)
  have "extends h0 ?h1" using assms by (rule extends_alloc)
  then have "extends h0 ?h2" by (simp add: extends_alloc split: option.splits)
  then show ?thesis
    unfolding rank_movies_by_average_heap_def Let_def
    by (intro extends_limit_rows extends_sort_rows extends_average_items_heap items)
qed

lemma extends_rank_movies_in_genre_heap:
  assumes "extends h0 h"
  shows "extends h0 (snd (rank_movies_in_genre_heap st g n h))"
proof -
  have "extends h0 (alloc (NameList xs) (alloc (NameList []) h))" for xs
    using assms by (intro extends_alloc)
  then show ?thesis
    by (simp add: rank_movies_in_genre_heap_def Let_def extends_alloc extends_rank_movies_by_average_heap)
qed

lemma extends_genre_averages_heap:
  "extends h0 h \<Longrightarrow> next_free h0 \<le> avgs \<Longrightarrow> extends h0 (genre_averages_heap st avgs names h)"
proof (induction names arbitrary: h)
  case Nil
  then show ?case by simp
next
  case (Cons nm names)
  have a: "extends h0 (snd (movie_average_rating_heap st nm h))"
    using Cons.prems(1) by (rule extends_movie_average_rating_heap)
  show ?case
    by (simp add: Cons.IH a extends_append_float Cons.prems(2) split: option.splits)
qed

lemma extends_genre_items_heap:
  "extends h0 h \<Longrightarrow> next_free h0 \<le> results \<Longrightarrow> extends h0 (genre_items_heap st results mbg h)"
proof (induction mbg arbitrary: h)
  case Nil
  then show ?case by simp
next
  case (Cons gm mbg)
  obtain g movie_names where gm: "gm = (g, movie_names)" by (cases gm)
  have avgs: "next_free h0 \<le> next_free h" using Cons.prems(1) by (rule extends_next_free)
  have "extends h0 (alloc (FloatList []) h)" using Cons.prems(1) by (rule extends_alloc)
  then have a: "extends h0 (genre_averages_heap st (next_free h) (names_of (alloc (FloatList []) h) movie_names)
      (alloc (FloatList []) h))"
    using avgs by (rule extends_genre_averages_heap)
  show ?case
    by (simp add: gm Let_def Cons.IH a extends_append_row Cons.prems(2))
qed

lemma extends_rank_genres_by_popularity_heap:
  assumes "extends h0 h"
  shows "extends h0 (snd (rank_genres_by_popularity_heap st n h))"
proof -
  have results: "next_free h0 \<le> next_free h" using assms by (rule extends_next_free)
  have "extends h0 (alloc (RowList []) h)" using assms by (rule extends_alloc)
  then show ?thesis
    unfolding rank_genres_by_popularity_heap_def Let_def
    by (intro extends_limit_rows extends_sort_rows extends_genre_items_heap results)
qed


subsection \<open>The recommender\<close>

lemma ref_dict_alloc_float: "set (ref_dict (alloc (FloatList xs) h) b) \<subseteq> set (ref_dict h b)"
  by (auto simp: ref_dict_def alloc_def split: option.splits obj.splits if_splits)

lemma ref_dict_append_float: "ref_dict (append_float a x h) b = ref_dict h b"
  by (auto simp: ref_dict_def append_float_def put_def split: option.splits obj.splits)

lemma ref_dict_dict_store: "set (ref_dict (dict_store a k r h) b) \<subseteq> insert (k, r) (set (ref_dict h b))"
  using set_update_subset [of k r]
  by (auto simp: ref_dict_def dict_store_def put_def split: option.splits obj.splits if_splits)

lemma extends_group_ratings_heap:
  "extends h0 h \<Longrightarrow> next_free h0 \<le> by_genre \<Longrightarrow>
   \<forall>(g, a) \<in> set (ref_dict h by_genre). next_free h0 \<le> a \<Longrightarrow>
   extends h0 (group_ratings_heap st by_genre per_user h)"
proof (induction per_user arbitrary: h)
  case Nil
  then show ?case by simp
next
  case (Cons nr per_user)
  obtain nm rating where nr: "nr = (nm, rating)" by (cases nr)
  show ?case
  proof (cases "map_of (movies_by_name_in h st) nm")
    case None
    with Cons show ?thesis by (simp add: nr)
  next
    case (Some m)
    let ?dflt = "next_free h"
    let ?h1 = "alloc (FloatList []) h"
    let ?h2 = "case map_of (ref_dict ?h1 by_genre) (genre m) of
                 None \<Rightarrow> dict_store by_genre (genre m) ?dflt ?h1 | Some a \<Rightarrow> ?h1"
    let ?target = "case map_of (ref_dict ?h1 by_genre) (genre m) of None \<Rightarrow> ?dflt | Some a \<Rightarrow> a"
    have dflt: "next_free h0 \<le> ?dflt" using Cons.prems(1) by (rule extends_next_free)
    have e1: "extends h0 ?h1" using Cons.prems(1) by (rule extends_alloc)
    have r1: "\<forall>(g, a) \<in> set (ref_dict ?h1 by_genre). next_free h0 \<le> a"
      using Cons.prems(3) ref_dict_alloc_float [of "[]" h by_genre] by blast
    have e2: "extends h0 ?h2"
      using e1 Cons.prems(2) by (simp add: extends_dict_store split: option.splits)
    have r2: "\<forall>(g, a) \<in> set (ref_dict ?h2 by_genre). next_free h0 \<le> a"
    proof (cases "map_of (ref_dict ?h1 by_genre) (genre m)")
      case None
      then show ?thesis
        using r1 dflt ref_dict_dict_store [of by_genre "genre m" ?dflt ?h1 by_genre] by auto
    next
      case (Some a)
      then show ?thesis using r1 by simp
    qed
    have target: "next_free h0 \<le> ?target"
    proof (cases "map_of (ref_dict ?h1 by_genre) (genre m)")
      case None
      then show ?thesis using dflt by simp
    next
      case (Some a)
      then have "(genre m, a) \<in> set (ref_dict ?h1 by_genre)" by (rule map_of_SomeD)
      with r1 Some show ?thesis by auto
    qed
    have e3: "extends h0 (append_float ?target rating ?h2)"
      using e2 target by (rule extends_append_float)
    have r3: "\<forall>(g, a) \<in> set (ref_dict (append_float ?target rating ?h2) by_genre). next_free h0 \<le> a"
      using r2 by (simp only: ref_dict_append_float)
    from Cons.IH [OF e3 Cons.prems(2) r3] show ?thesis
      by (simp add: nr Some Let_def)
  qed
qed

lemma extends_genre_rows_heap:
  "extends h0 h \<Longrightarrow> next_free h0 \<le> rows \<Longrightarrow> extends h0 (genre_rows_heap rows by_genre h)"
proof (induction by_genre arbitrary: h)
  case Nil
  then show ?case by simp
next
  case (Cons gr by_genre)
  obtain g ratings where gr: "gr = (g, ratings)" by (cases gr)
  show ?case by (simp add: gr Cons.IH extends_append_row Cons.prems)
qed

lemma extends_user_top_genre_heap:
  assumes "extends h0 h"
  shows "extends h0 (snd (user_top_genre_heap st user_id h))"
proof (cases "map_of (user_ratings_in h st) user_id")
  case None
  with assms show ?thesis by (simp add: user_top_genre_heap_def)
next
  case (Some per_user)
  let ?h1 = "alloc (RefDict []) h"
  let ?h2 = "group_ratings_heap st (next_free h) (rating_dict ?h1 per_user) ?h1"
  let ?h3 = "alloc (RowList []) ?h2"
  let ?h4 = "genre_rows_heap (next_free ?h2) (ref_dict ?h3 (next_free h)) ?h3"
  let ?h5 = "sort_rows (next_free ?h2) ?h4"
  have by_genre: "next_free h0 \<le> next_free h" using assms by (rule extends_next_free)
  have e1: "extends h0 ?h1" using assms by (rule extends_alloc)
  have "ref_dict ?h1 (next_free h) = []" by (simp add: ref_dict_def alloc_def)
  then have e2: "extends h0 ?h2"
    using e1 by_genre by (intro extends_group_ratings_heap) simp_all
  then have rows: "next_free h0 \<le> next_free ?h2" by (rule extends_next_free)
  have e3: "extends h0 ?h3" using e2 by (rule extends_alloc)
  have e4: "extends h0 ?h4" using e3 rows by (rule extends_genre_rows_heap)
  have e5: "extends h0 ?h5" using e4 rows by (rule extends_sort_rows)
  from assms e2 e5 show ?thesis
    by (simp add: user_top_genre_heap_def Some Let_def split: list.splits)
qed

lemma extends_collect_recs_heap:
  "extends h0 h \<Longrightarrow> next_free h0 \<le> recs \<Longrightarrow> extends h0 (collect_recs_heap rated g k recs ranked h)"
proof (induction ranked arbitrary: h)
  case Nil
  then show ?case by simp
next
  case (Cons row ranked)
  obtain nm avg cnt where row: "row = (nm, avg, cnt)" by (cases row)
  have "extends h0 (append_rec recs (nm, avg, cnt, g) h)"
    using Cons.prems by (rule extends_append_rec)
  then show ?case by (simp add: row Let_def Cons.IH Cons.prems)
qed

lemma extends_recommend_for_user_heap:
  assumes "extends h0 h"
  shows "extends h0 (snd (recommend_for_user_heap st user_id k h))"
proof -
  let ?h1 = "snd (user_top_genre_heap st user_id h)"
  have e1: "extends h0 ?h1" using assms by (rule extends_user_top_genre_heap)
  show ?thesis
  proof (cases "fst (user_top_genre_heap st user_id h)")
    case None
    with e1 show ?thesis by (simp add: recommend_for_user_heap_def Let_def extends_alloc)
  next
    case (Some top_row)
    have e3: "extends h0 (alloc (NameSet xs) (alloc (RatingDict []) ?h1))" for xs
      using e1 by (intro extends_alloc)
    have e4: "extends h0 (snd (rank_movies_in_genre_heap st g None (alloc (NameSet xs) (alloc (RatingDict []) ?h1))))"
      for g xs using e3 by (rule extends_rank_movies_in_genre_heap)
    have recs: "next_free h0 \<le> next_free (snd (rank_movies_in_genre_heap st g None
        (alloc (NameSet xs) (alloc (RatingDict []) ?h1))))" for g xs
      using e4 by (rule extends_next_free)
    show ?thesis
      unfolding recommend_for_user_heap_def Let_def Some option.case snd_conv
      by (intro extends_collect_recs_heap extends_alloc e4 recs)
  qed
qed

section \<open>The heap queries compute what the functions on stores compute\<close>

subsection \<open>Reading the store from an extended heap\<close>

lemma extends_objs: "extends h h' \<Longrightarrow> a < next_free h \<Longrightarrow> objs h' a = objs h a"
  by (simp add: extends_def)

lemma extends_readers:
  assumes "extends h h'" and "a < next_free h"
  shows "movie_dict h' a = movie_dict h a" "ref_dict h' a = ref_dict h a"
    "rating_dict h' a = rating_dict h a" "names_of h' a = names_of h a"
    "float_list h' a = float_list h a" "row_list h' a = row_list h a" "rec_list h' a = rec_list h a"
  using extends_objs [OF assms]
  by (simp_all add: movie_dict_def ref_dict_def rating_dict_def names_of_def float_list_def
      row_list_def rec_list_def)

lemma store_allocated_fields:
  assumes "store_allocated h st" and "extends h h'"
  shows "movies_by_name_in h' st = movies_by_name_in h st"
    and "movies_by_genre_in h' st = movies_by_genre_in h st"
    and "ratings_by_movie_in h' st = ratings_by_movie_in h st"
    and "user_ratings_in h' st = user_ratings_in h st"
proof -
  from assms have st: "objs h' st = objs h st" by (simp add: store_allocated_def extends_objs)
  show "movies_by_name_in h' st = movies_by_name_in h st"
    "movies_by_genre_in h' st = movies_by_genre_in h st"
    "ratings_by_movie_in h' st = ratings_by_movie_in h st"
    "user_ratings_in h' st = user_ratings_in h st"
    using assms extends_readers [OF assms(2)]
    by (auto simp: movies_by_name_in_def movies_by_genre_in_def ratings_by_movie_in_def
        user_ratings_in_def st store_allocated_def split: option.splits obj.splits)
qed

lemma store_allocated_refs:
  assumes "store_allocated h st"
  shows "(k, a) \<in> set (movies_by_genre_in h st) \<Longrightarrow> a < next_free h"
    and "(k, a) \<in> set (ratings_by_movie_in h st) \<Longrightarrow> a < next_free h"
    and "(k, a) \<in> set (user_ratings_in h st) \<Longrightarrow> a < next_free h"
  using assms
  by (auto simp: movies_by_genre_in_def ratings_by_movie_in_def user_ratings_in_def
      store_allocated_def list_all_iff split: option.splits obj.splits)

lemma store_allocated_extends:
  assumes "store_allocated h st" and "extends h h'"
  shows "store_allocated h' st"
proof -
  from assms have st: "objs h' st = objs h st" by (simp add: store_allocated_def extends_objs)
  from assms(2) have le: "next_free h \<le> next_free h'" by (rule extends_next_free)
  show ?thesis
    using assms(1) le extends_readers(2) [OF assms(2)]
    by (auto simp: store_allocated_def st list_all_iff split: option.splits obj.splits)
qed

lemma store_of_extends:
  assumes "store_allocated h st" and "extends h h'"
  shows "store_of h' st = store_of h st"
proof -
  have "map (\<lambda>(g, a). (g, names_of h' a)) (movies_by_genre_in h st)
      = map (\<lambda>(g, a). (g, names_of h a)) (movies_by_genre_in h st)"
    using store_allocated_refs(1) [OF assms(1)] extends_readers(4) [OF assms(2)] by (intro map_cong) auto
  moreover have "map (\<lambda>(nm, a). (nm, float_list h' a)) (ratings_by_movie_in h st)
      = map (\<lambda>(nm, a). (nm, float_list h a)) (ratings_by_movie_in h st)"
    using store_allocated_refs(2) [OF assms(1)] extends_readers(5) [OF assms(2)] by (intro map_cong) auto
  moreover have "map (\<lambda>(u, a). (u, rating_dict h' a)) (user_ratings_in h st)
      = map (\<lambda>(u, a). (u, rating_dict h a)) (user_ratings_in h st)"
    using store_allocated_refs(3) [OF assms(1)] extends_readers(3) [OF assms(2)] by (intro map_cong) auto
  ultimately show ?thesis
    by (simp add: store_of_def store_allocated_fields [OF assms])
qed

lemma map_of_map_value: "map_of (map (\<lambda>(k, a). (k, f a)) d) k = map_option f (map_of d k)"
  by (induction d) auto

text \<open>The read \<open>store.ratings_by_movie.get(name, [])\<close> with its new default list.\<close>

lemma get_ratings_default:
  assumes "store_allocated h st"
  shows "float_list (alloc (FloatList []) h)
           (case map_of (ratings_by_movie_in (alloc (FloatList []) h) st) nm of
              None \<Rightarrow> next_free h | Some a \<Rightarrow> a)
         = dict_get (ratings_by_movie (store_of h st)) nm []"
proof -
  let ?h1 = "alloc (FloatList []) h"
  have e: "extends h ?h1" by (intro extends_alloc extends_refl)
  have rb: "ratings_by_movie_in ?h1 st = ratings_by_movie_in h st"
    by (rule store_allocated_fields(3) [OF assms e])
  show ?thesis
  proof (cases "map_of (ratings_by_movie_in h st) nm")
    case None
    have "float_list ?h1 (next_free h) = []" by (simp add: float_list_def alloc_def)
    with None show ?thesis by (simp add: rb store_of_def dict_get_def map_of_map_value)
  next
    case (Some a)
    then have "(nm, a) \<in> set (ratings_by_movie_in h st)" by (rule map_of_SomeD)
    then have "a < next_free h" by (rule store_allocated_refs(2) [OF assms])
    then have "float_list ?h1 a = float_list h a" by (rule extends_readers(5) [OF e])
    with Some show ?thesis by (simp add: rb store_of_def dict_get_def map_of_map_value)
  qed
qed

lemma movie_average_rating_heap_value:
  assumes "store_allocated h st"
  shows "fst (movie_average_rating_heap st nm h) = movie_average_rating (store_of h st) nm"
  using get_ratings_default [OF assms, of nm]
  by (simp add: movie_average_rating_heap_def movie_average_rating_def Let_def)


subsection \<open>Objects after an allocation and after a change in place\<close>

lemma next_free_alloc: "next_free (alloc v h) = Suc (next_free h)"
  by (simp add: alloc_def)

lemma objs_alloc_new: "objs (alloc v h) (next_free h) = Some v"
  by (simp add: alloc_def)

lemma objs_alloc_old: "a < next_free h \<Longrightarrow> objs (alloc v h) a = objs h a"
  by (simp add: alloc_def)

lemma append_row_at:
  "objs h a = Some (RowList xs) \<Longrightarrow> objs (append_row a x h) a = Some (RowList (xs @ [x]))"
  by (simp add: append_row_def put_def)

lemma append_row_other: "b \<noteq> a \<Longrightarrow> objs (append_row a x h) b = objs h b"
  by (simp add: append_row_def put_def split: option.splits obj.splits)

lemma next_free_append_row: "next_free (append_row a x h) = next_free h"
  by (simp add: append_row_def put_def split: option.splits obj.splits)

lemma sort_rows_at:
  "objs h a = Some (RowList xs) \<Longrightarrow> objs (sort_rows a h) a = Some (RowList (sort_key rank_key xs))"
  by (simp add: sort_rows_def put_def)

lemma next_free_sort_rows: "next_free (sort_rows a h) = next_free h"
  by (simp add: sort_rows_def put_def split: option.splits obj.splits)

lemma append_float_at:
  "objs h a = Some (FloatList xs) \<Longrightarrow> objs (append_float a x h) a = Some (FloatList (xs @ [x]))"
  by (simp add: append_float_def put_def)

lemma append_float_other: "b \<noteq> a \<Longrightarrow> objs (append_float a x h) b = objs h b"
  by (simp add: append_float_def put_def split: option.splits obj.splits)

lemma next_free_append_float: "next_free (append_float a x h) = next_free h"
  by (simp add: append_float_def put_def split: option.splits obj.splits)

lemma append_rec_at:
  "objs h a = Some (RecList xs) \<Longrightarrow> objs (append_rec a x h) a = Some (RecList (xs @ [x]))"
  by (simp add: append_rec_def put_def)

lemma dict_store_at:
  "objs h a = Some (RefDict d) \<Longrightarrow> objs (dict_store a k r h) a = Some (RefDict (AList.update k r d))"
  by (simp add: dict_store_def put_def)

lemma dict_store_other: "b \<noteq> a \<Longrightarrow> objs (dict_store a k r h) b = objs h b"
  by (simp add: dict_store_def put_def split: option.splits obj.splits)

lemma next_free_dict_store: "next_free (dict_store a k r h) = next_free h"
  by (simp add: dict_store_def put_def split: option.splits obj.splits)

lemma limit_rows_value:
  assumes "objs h rows = Some (RowList xs)"
  shows "row_list (snd (limit_rows rows n h)) (fst (limit_rows rows n h)) = slice_to xs n"
  using assms
  by (cases n) (simp_all add: limit_rows_def row_list_def slice_to_def objs_alloc_new)

lemma limit_rows_allocated:
  "rows < next_free h \<Longrightarrow> fst (limit_rows rows n h) < next_free (snd (limit_rows rows n h))"
  by (cases n) (simp_all add: limit_rows_def next_free_alloc)

subsection \<open>The movie rankings\<close>

lemma average_items_heap_value:
  assumes st: "store_allocated h0 st"
  shows "extends h0 h \<Longrightarrow> next_free h0 \<le> items \<Longrightarrow> items < next_free h \<Longrightarrow>
         objs h items = Some (RowList xs) \<Longrightarrow>
         objs (average_items_heap st items names h) items
           = Some (RowList (xs @ average_items (store_of h0 st) names))"
proof (induction names arbitrary: h xs)
  case Nil
  then show ?case by simp
next
  case (Cons nm names)
  let ?h1 = "alloc (FloatList []) h"
  let ?r = "dict_get (ratings_by_movie (store_of h0 st)) nm []"
  let ?row = "(nm, fmean ?r, length ?r)"
  have sa: "store_allocated h st" by (rule store_allocated_extends [OF st Cons.prems(1)])
  have so: "store_of h st = store_of h0 st" by (rule store_of_extends [OF st Cons.prems(1)])
  have r: "float_list ?h1 (case map_of (ratings_by_movie_in ?h1 st) nm of
             None \<Rightarrow> next_free h | Some a \<Rightarrow> a) = ?r"
    using get_ratings_default [OF sa, of nm] by (simp only: so)
  have e1: "extends h0 ?h1" using Cons.prems(1) by (rule extends_alloc)
  have i1: "items < next_free ?h1" using Cons.prems(3) by (simp add: next_free_alloc)
  have o1: "objs ?h1 items = Some (RowList xs)"
    using Cons.prems(3,4) by (simp add: objs_alloc_old)
  show ?case
  proof (cases "?r = []")
    case True
    from Cons.IH [OF e1 Cons.prems(2) i1 o1] show ?thesis
      by (simp add: Let_def r True)
  next
    case False
    have e2: "extends h0 (append_row items ?row ?h1)"
      using e1 Cons.prems(2) by (rule extends_append_row)
    have i2: "items < next_free (append_row items ?row ?h1)"
      using i1 by (simp add: next_free_append_row)
    have o2: "objs (append_row items ?row ?h1) items = Some (RowList (xs @ [?row]))"
      using o1 by (rule append_row_at)
    from Cons.IH [OF e2 Cons.prems(2) i2 o2] show ?thesis
      by (simp add: Let_def r False)
  qed
qed

lemma next_free_average_items_heap:
  "next_free h \<le> next_free (average_items_heap st items names h)"
proof (induction names arbitrary: h)
  case Nil
  then show ?case by simp
next
  case (Cons nm names)
  have "next_free h \<le> next_free (alloc (FloatList []) h)" by (simp add: next_free_alloc)
  moreover have "next_free (alloc (FloatList []) h)
      \<le> next_free (average_items_heap st items names (alloc (FloatList []) h))"
    by (rule Cons.IH)
  moreover have "next_free (alloc (FloatList []) h)
      = next_free (append_row items row (alloc (FloatList []) h))" for row
    by (simp add: next_free_append_row)
  moreover have "next_free (append_row items row (alloc (FloatList []) h))
      \<le> next_free (average_items_heap st items names (append_row items row (alloc (FloatList []) h)))" for row
    by (rule Cons.IH)
  ultimately show ?case
    by (simp add: Let_def) (metis le_trans)
qed

lemma rank_movies_by_average_heap_value:
  assumes st: "store_allocated h st"
    and c: "case movie_names of Some c \<Rightarrow> c < next_free h | None \<Rightarrow> True"
  shows "row_list (snd (rank_movies_by_average_heap st movie_names n h))
           (fst (rank_movies_by_average_heap st movie_names n h))
         = rank_movies_by_average (store_of h st) (map_option (names_of h) movie_names) n"
    and "fst (rank_movies_by_average_heap st movie_names n h)
         < next_free (snd (rank_movies_by_average_heap st movie_names n h))"
proof -
  let ?items = "next_free h"
  let ?h1 = "alloc (RowList []) h"
  let ?cand = "case movie_names of Some c \<Rightarrow> c | None \<Rightarrow> next_free ?h1"
  let ?h2 = "case movie_names of Some c \<Rightarrow> ?h1
             | None \<Rightarrow> alloc (NameList (map fst (ratings_by_movie_in ?h1 st))) ?h1"
  let ?names = "case movie_names of Some c \<Rightarrow> names_of h c
                | None \<Rightarrow> map fst (ratings_by_movie (store_of h st))"
  let ?h3 = "average_items_heap st ?items (names_of ?h2 ?cand) ?h2"
  let ?h4 = "sort_rows ?items ?h3"
  have e1: "extends h ?h1" by (intro extends_alloc extends_refl)
  have e2: "extends h ?h2" by (cases movie_names) (simp_all add: extends_alloc extends_refl)
  have rb: "ratings_by_movie_in ?h1 st = ratings_by_movie_in h st"
    by (rule store_allocated_fields(3) [OF st e1])
  have keys: "map fst (ratings_by_movie (store_of h st)) = map fst (ratings_by_movie_in h st)"
    by (simp add: store_of_def comp_def case_prod_beta)
  have names: "names_of ?h2 ?cand = ?names"
  proof (cases movie_names)
    case None
    then show ?thesis by (simp add: names_of_def objs_alloc_new rb keys)
  next
    case (Some c)
    with c have "c < next_free h" by simp
    with Some show ?thesis using extends_readers(4) [OF e1] by simp
  qed
  have i2: "?items < next_free ?h2" by (cases movie_names) (simp_all add: next_free_alloc)
  have "objs ?h1 ?items = Some (RowList [])" by (rule objs_alloc_new)
  then have o2: "objs ?h2 ?items = Some (RowList [])"
    by (cases movie_names) (simp_all add: objs_alloc_old next_free_alloc)
  have o3: "objs ?h3 ?items = Some (RowList ([] @ average_items (store_of h st) (names_of ?h2 ?cand)))"
    using st e2 le_refl i2 o2 by (rule average_items_heap_value)
  have o4: "objs ?h4 ?items = Some (RowList (sort_key rank_key (average_items (store_of h st) ?names)))"
    using sort_rows_at [OF o3] by (simp only: names append_Nil)
  have res: "rank_movies_by_average_heap st movie_names n h = limit_rows ?items n ?h4"
    by (simp add: rank_movies_by_average_heap_def Let_def)
  have pure: "rank_movies_by_average (store_of h st) (map_option (names_of h) movie_names) n
      = slice_to (sort_key rank_key (average_items (store_of h st) ?names)) n"
    by (cases movie_names) (simp_all add: rank_movies_by_average_def Let_def)
  show "row_list (snd (rank_movies_by_average_heap st movie_names n h))
           (fst (rank_movies_by_average_heap st movie_names n h))
         = rank_movies_by_average (store_of h st) (map_option (names_of h) movie_names) n"
    using limit_rows_value [OF o4] by (simp only: res pure)
  have "?items < next_free ?h3"
    using i2 next_free_average_items_heap [of ?h2 st ?items "names_of ?h2 ?cand"] by linarith
  then have "?items < next_free ?h4" by (simp add: next_free_sort_rows)
  then show "fst (rank_movies_by_average_heap st movie_names n h)
         < next_free (snd (rank_movies_by_average_heap st movie_names n h))"
    unfolding res by (rule limit_rows_allocated)
qed

text \<open>The read \<open>store.movies_by_genre.get(genre, [])\<close> with its new default list.\<close>

lemma get_genre_default:
  assumes "store_allocated h st"
  shows "names_of (alloc (NameList []) h)
           (case map_of (movies_by_genre_in (alloc (NameList []) h) st) g of
              None \<Rightarrow> next_free h | Some a \<Rightarrow> a)
         = dict_get (movies_by_genre (store_of h st)) g []"
proof -
  let ?h1 = "alloc (NameList []) h"
  have e: "extends h ?h1" by (intro extends_alloc extends_refl)
  have mg: "movies_by_genre_in ?h1 st = movies_by_genre_in h st"
    by (rule store_allocated_fields(2) [OF assms e])
  show ?thesis
  proof (cases "map_of (movies_by_genre_in h st) g")
    case None
    have "names_of ?h1 (next_free h) = []" by (simp add: names_of_def alloc_def)
    with None show ?thesis by (simp add: mg store_of_def dict_get_def map_of_map_value)
  next
    case (Some a)
    then have "(g, a) \<in> set (movies_by_genre_in h st)" by (rule map_of_SomeD)
    then have "a < next_free h" by (rule store_allocated_refs(1) [OF assms])
    then have "names_of ?h1 a = names_of h a" by (rule extends_readers(4) [OF e])
    with Some show ?thesis by (simp add: mg store_of_def dict_get_def map_of_map_value)
  qed
qed

lemma rank_movies_in_genre_heap_value:
  assumes st: "store_allocated h st"
  shows "row_list (snd (rank_movies_in_genre_heap st g n h)) (fst (rank_movies_in_genre_heap st g n h))
         = rank_movies_in_genre (store_of h st) g n"
    and "fst (rank_movies_in_genre_heap st g n h) < next_free (snd (rank_movies_in_genre_heap st g n h))"
proof -
  let ?h1 = "alloc (NameList []) h"
  let ?found = "case map_of (movies_by_genre_in ?h1 st) g of None \<Rightarrow> next_free h | Some a \<Rightarrow> a"
  let ?gm = "dict_get (movies_by_genre (store_of h st)) g []"
  let ?h2 = "alloc (NameList ?gm) ?h1"
  let ?genre_movies = "next_free ?h1"
  have found: "names_of ?h1 ?found = ?gm" by (rule get_genre_default [OF st])
  have e2: "extends h ?h2" by (intro extends_alloc extends_refl)
  have st2: "store_allocated ?h2 st" by (rule store_allocated_extends [OF st e2])
  have so2: "store_of ?h2 st = store_of h st" by (rule store_of_extends [OF st e2])
  have nm: "names_of ?h2 ?genre_movies = ?gm" by (simp add: names_of_def objs_alloc_new)
  have c: "case Some ?genre_movies of Some c \<Rightarrow> c < next_free ?h2 | None \<Rightarrow> True"
    by (simp add: next_free_alloc)
  note r = rank_movies_by_average_heap_value [OF st2 c, of n]
  have res: "rank_movies_in_genre_heap st g n h
      = (if ?gm = [] then (next_free ?h2, alloc (RowList []) ?h2)
         else rank_movies_by_average_heap st (Some ?genre_movies) n ?h2)"
    by (simp add: rank_movies_in_genre_heap_def Let_def found nm)
  show "row_list (snd (rank_movies_in_genre_heap st g n h)) (fst (rank_movies_in_genre_heap st g n h))
         = rank_movies_in_genre (store_of h st) g n"
  proof (cases "?gm = []")
    case True
    then show ?thesis
      by (simp add: res rank_movies_in_genre_def Let_def row_list_def objs_alloc_new)
  next
    case False
    with r(1) show ?thesis
      by (simp add: res rank_movies_in_genre_def Let_def nm so2)
  qed
  show "fst (rank_movies_in_genre_heap st g n h) < next_free (snd (rank_movies_in_genre_heap st g n h))"
  proof (cases "?gm = []")
    case True
    then show ?thesis by (simp add: res next_free_alloc)
  next
    case False
    with r(2) show ?thesis by (simp add: res)
  qed
qed


subsection \<open>The genre ranking\<close>

lemma snd_movie_average_rating_heap:
  "snd (movie_average_rating_heap st nm h) = alloc (FloatList []) h"
  by (simp add: movie_average_rating_heap_def Let_def)

lemma genre_averages_heap_value:
  assumes st: "store_allocated h0 st"
  shows "extends h0 h \<Longrightarrow> next_free h0 \<le> avgs \<Longrightarrow> avgs < next_free h \<Longrightarrow>
         objs h avgs = Some (FloatList xs) \<Longrightarrow>
         objs (genre_averages_heap st avgs names h) avgs
           = Some (FloatList (xs @ List.map_filter (movie_average_rating (store_of h0 st)) names))"
proof (induction names arbitrary: h xs)
  case Nil
  then show ?case by (simp add: List.map_filter_simps)
next
  case (Cons nm names)
  let ?h1 = "alloc (FloatList []) h"
  have sa: "store_allocated h st" by (rule store_allocated_extends [OF st Cons.prems(1)])
  have so: "store_of h st = store_of h0 st" by (rule store_of_extends [OF st Cons.prems(1)])
  have v: "fst (movie_average_rating_heap st nm h) = movie_average_rating (store_of h0 st) nm"
    using movie_average_rating_heap_value [OF sa, of nm] by (simp only: so)
  have e1: "extends h0 ?h1" using Cons.prems(1) by (rule extends_alloc)
  have i1: "avgs < next_free ?h1" using Cons.prems(3) by (simp add: next_free_alloc)
  have o1: "objs ?h1 avgs = Some (FloatList xs)"
    using Cons.prems(3,4) by (simp add: objs_alloc_old)
  show ?case
  proof (cases "movie_average_rating (store_of h0 st) nm")
    case None
    from Cons.IH [OF e1 Cons.prems(2) i1 o1] show ?thesis
      by (simp add: v None snd_movie_average_rating_heap List.map_filter_simps)
  next
    case (Some avg)
    have e2: "extends h0 (append_float avgs avg ?h1)"
      using e1 Cons.prems(2) by (rule extends_append_float)
    have i2: "avgs < next_free (append_float avgs avg ?h1)"
      using i1 by (simp add: next_free_append_float)
    have o2: "objs (append_float avgs avg ?h1) avgs = Some (FloatList (xs @ [avg]))"
      using o1 by (rule append_float_at)
    from Cons.IH [OF e2 Cons.prems(2) i2 o2] show ?thesis
      by (simp add: v Some snd_movie_average_rating_heap List.map_filter_simps)
  qed
qed

lemma genre_items_heap_value:
  assumes st: "store_allocated h0 st"
  shows "extends h0 h \<Longrightarrow> next_free h0 \<le> results \<Longrightarrow> results < next_free h \<Longrightarrow>
         objs h results = Some (RowList xs) \<Longrightarrow> \<forall>(g, a) \<in> set mbg. a < next_free h0 \<Longrightarrow>
         objs (genre_items_heap st results mbg h) results
           = Some (RowList (xs @ genre_items (store_of h0 st) (map (\<lambda>(g, a). (g, names_of h0 a)) mbg)))"
proof (induction mbg arbitrary: h xs)
  case Nil
  then show ?case by simp
next
  case (Cons ga mbg)
  obtain g a where ga: "ga = (g, a)" by (cases ga)
  let ?avgs = "next_free h"
  let ?h1 = "alloc (FloatList []) h"
  let ?h2 = "genre_averages_heap st ?avgs (names_of ?h1 a) ?h1"
  let ?av = "List.map_filter (movie_average_rating (store_of h0 st)) (names_of h0 a)"
  let ?row = "(g, fmean ?av, length ?av)"
  from Cons.prems(5) have a: "a < next_free h0" and rest: "\<forall>(g, a) \<in> set mbg. a < next_free h0"
    by (simp_all add: ga)
  have avgs: "next_free h0 \<le> ?avgs" using Cons.prems(1) by (rule extends_next_free)
  have e1: "extends h0 ?h1" using Cons.prems(1) by (rule extends_alloc)
  have n1: "names_of ?h1 a = names_of h0 a" using a by (rule extends_readers(4) [OF e1])
  have "objs ?h2 ?avgs = Some (FloatList ([] @ ?av))"
    unfolding n1 using st e1 avgs
    by (rule genre_averages_heap_value) (simp_all add: next_free_alloc objs_alloc_new)
  then have f2: "float_list ?h2 ?avgs = ?av" by (simp add: float_list_def)
  have e2: "extends h0 ?h2" using e1 avgs by (rule extends_genre_averages_heap)
  have "extends h ?h1" by (intro extends_alloc extends_refl)
  then have eh: "extends h ?h2" by (rule extends_genre_averages_heap) simp
  have i2: "results < next_free ?h2"
    using extends_next_free [OF eh] Cons.prems(3) by linarith
  have o2: "objs ?h2 results = Some (RowList xs)"
    using extends_objs [OF eh Cons.prems(3)] Cons.prems(4) by simp
  show ?case
  proof (cases "?av = []")
    case True
    from Cons.IH [OF e2 Cons.prems(2) i2 o2 rest] show ?thesis
      by (simp add: ga Let_def f2 True)
  next
    case False
    have e3: "extends h0 (append_row results ?row ?h2)"
      using e2 Cons.prems(2) by (rule extends_append_row)
    have i3: "results < next_free (append_row results ?row ?h2)"
      using i2 by (simp add: next_free_append_row)
    have o3: "objs (append_row results ?row ?h2) results = Some (RowList (xs @ [?row]))"
      using o2 by (rule append_row_at)
    from Cons.IH [OF e3 Cons.prems(2) i3 o3 rest] show ?thesis
      by (simp add: ga Let_def f2 False)
  qed
qed

lemma rank_genres_by_popularity_heap_value:
  assumes st: "store_allocated h st"
  shows "row_list (snd (rank_genres_by_popularity_heap st n h))
           (fst (rank_genres_by_popularity_heap st n h))
         = rank_genres_by_popularity (store_of h st) n"
proof -
  let ?results = "next_free h"
  let ?h1 = "alloc (RowList []) h"
  let ?h2 = "genre_items_heap st ?results (movies_by_genre_in ?h1 st) ?h1"
  let ?h3 = "sort_rows ?results ?h2"
  have e1: "extends h ?h1" by (intro extends_alloc extends_refl)
  have mg: "movies_by_genre_in ?h1 st = movies_by_genre_in h st"
    by (rule store_allocated_fields(2) [OF st e1])
  have refs: "\<forall>(g, a) \<in> set (movies_by_genre_in h st). a < next_free h"
    using store_allocated_refs(1) [OF st] by auto
  have "objs ?h2 ?results = Some (RowList ([] @ genre_items (store_of h st)
      (map (\<lambda>(g, a). (g, names_of h a)) (movies_by_genre_in h st))))"
    unfolding mg using st e1 le_refl _ _ refs
    by (rule genre_items_heap_value) (simp_all add: next_free_alloc objs_alloc_new)
  then have "objs ?h2 ?results = Some (RowList (genre_items (store_of h st) (movies_by_genre (store_of h st))))"
    by (simp add: store_of_def)
  then have o3: "objs ?h3 ?results
      = Some (RowList (sort_key rank_key (genre_items (store_of h st) (movies_by_genre (store_of h st)))))"
    by (rule sort_rows_at)
  show ?thesis
    using limit_rows_value [OF o3, of n]
    by (simp add: rank_genres_by_popularity_heap_def rank_genres_by_popularity_def Let_def)
qed


subsection \<open>The favourite genre of a user\<close>

lemma update_absent_key: "map_of d k = None \<Longrightarrow> AList.update k v d = d @ [(k, v)]"
  by (induction d) (auto split: if_splits)

lemma update_through_ref:
  "distinct (map snd d) \<Longrightarrow> map_of d k = Some a \<Longrightarrow>
   map (\<lambda>(g, b). (g, if b = a then v else f b)) d = AList.update k v (map (\<lambda>(g, b). (g, f b)) d)"
proof (induction d)
  case Nil
  then show ?case by simp
next
  case (Cons gb d)
  obtain g b where gb: "gb = (g, b)" by (cases gb)
  show ?case
  proof (cases "g = k")
    case True
    with Cons.prems gb have b: "b = a" and "a \<notin> snd ` set d" by auto
    then have "map (\<lambda>(g, b). (g, if b = a then v else f b)) d = map (\<lambda>(g, b). (g, f b)) d"
      by (intro map_cong) (auto simp: image_iff)
    with True b show ?thesis by (simp add: gb)
  next
    case False
    with Cons.prems gb have m: "map_of d k = Some a" and d: "distinct (map snd d)" by auto
    from m have "(k, a) \<in> set d" by (rule map_of_SomeD)
    then have "a \<in> snd ` set d" by force
    with Cons.prems(1) gb have "b \<noteq> a" by auto
    with False Cons.IH [OF d m] show ?thesis by (simp add: gb)
  qed
qed

lemma group_ratings_heap_value:
  assumes st: "store_allocated h0 st"
  shows "extends h0 h \<Longrightarrow> next_free h0 \<le> by_genre \<Longrightarrow> grouped h by_genre d \<Longrightarrow>
         \<exists>d'. grouped (group_ratings_heap st by_genre per_user h) by_genre d'
           \<and> map (\<lambda>(g, a). (g, float_list (group_ratings_heap st by_genre per_user h) a)) d'
             = fold (group_rating (movies_by_name (store_of h0 st))) per_user
                 (map (\<lambda>(g, a). (g, float_list h a)) d)"
proof (induction per_user arbitrary: h d)
  case Nil
  then show ?case by auto
next
  case (Cons nr per_user)
  obtain nm rating where nr: "nr = (nm, rating)" by (cases nr)
  let ?mbn = "movies_by_name (store_of h0 st)"
  let ?D = "map (\<lambda>(g, a). (g, float_list h a)) d"
  have "store_of h st = store_of h0 st" by (rule store_of_extends [OF st Cons.prems(1)])
  then have mbn: "movies_by_name_in h st = ?mbn" by (simp add: store_of_def)
  from Cons.prems(3) have bg: "by_genre < next_free h" and od: "objs h by_genre = Some (RefDict d)"
    and dd: "distinct (map snd d)"
    and refs: "\<And>g a. (g, a) \<in> set d \<Longrightarrow> by_genre < a \<and> a < next_free h \<and> (\<exists>xs. objs h a = Some (FloatList xs))"
    by (auto simp: grouped_def)
  show ?case
  proof (cases "map_of ?mbn nm")
    case None
    from Cons.IH [OF Cons.prems] show ?thesis
      by (simp add: nr mbn None group_rating_def)
  next
    case (Some m)
    let ?dflt = "next_free h"
    let ?h1 = "alloc (FloatList []) h"
    have rd1: "ref_dict ?h1 by_genre = d" using bg od by (simp add: ref_dict_def objs_alloc_old)
    have e1: "extends h0 ?h1" using Cons.prems(1) by (rule extends_alloc)
    have dflt: "next_free h0 \<le> ?dflt" using Cons.prems(1) by (rule extends_next_free)
    show ?thesis
    proof (cases "map_of d (genre m)")
      case None
      let ?h2 = "dict_store by_genre (genre m) ?dflt ?h1"
      let ?h3 = "append_float ?dflt rating ?h2"
      let ?d' = "d @ [(genre m, ?dflt)]"
      have step: "group_ratings_heap st by_genre (nr # per_user) h = group_ratings_heap st by_genre per_user ?h3"
        by (simp add: nr mbn Some Let_def rd1 None)
      have e3: "extends h0 ?h3"
        using e1 Cons.prems(2) dflt by (intro extends_append_float extends_dict_store)
      have ne: "?dflt \<noteq> by_genre" using bg by simp
      have o1: "objs ?h1 by_genre = Some (RefDict d)" using bg od by (simp add: objs_alloc_old)
      have "objs ?h2 by_genre = Some (RefDict (AList.update (genre m) ?dflt d))"
        using o1 by (rule dict_store_at)
      then have o2: "objs ?h2 by_genre = Some (RefDict ?d')" by (simp add: update_absent_key [OF None])
      have o3: "objs ?h3 by_genre = Some (RefDict ?d')"
        using o2 ne by (simp add: append_float_other)
      have "objs ?h2 ?dflt = Some (FloatList [])"
        using ne by (simp add: dict_store_other objs_alloc_new)
      then have od3: "objs ?h3 ?dflt = Some (FloatList ([] @ [rating]))" by (rule append_float_at)
      have old: "objs ?h3 a = objs h a" if "(g, a) \<in> set d" for g a
      proof -
        from refs [OF that] have "by_genre < a" "a < next_free h" by simp_all
        then show ?thesis by (simp add: append_float_other dict_store_other objs_alloc_old)
      qed
      have n3: "next_free ?h3 = Suc (next_free h)"
        by (simp add: next_free_append_float next_free_dict_store next_free_alloc)
      have fresh: "?dflt \<notin> snd ` set d" using refs by force
      have g3: "grouped ?h3 by_genre ?d'"
        unfolding grouped_def
      proof (intro conjI)
        show "by_genre < next_free ?h3" using bg by (simp add: n3)
        show "objs ?h3 by_genre = Some (RefDict ?d')" by (rule o3)
        show "distinct (map snd ?d')" using dd fresh by simp
        show "\<forall>(g, a) \<in> set ?d'. by_genre < a \<and> a < next_free ?h3 \<and> (\<exists>xs. objs ?h3 a = Some (FloatList xs))"
          using refs old od3 bg by (auto simp: n3 less_Suc_eq)
      qed
      have "map (\<lambda>(g, a). (g, float_list ?h3 a)) d = ?D"
        using old by (intro map_cong) (auto simp: float_list_def)
      moreover have "float_list ?h3 ?dflt = [rating]" using od3 by (simp add: float_list_def)
      ultimately have abs3: "map (\<lambda>(g, a). (g, float_list ?h3 a)) ?d' = ?D @ [(genre m, [rating])]"
        by simp
      have "map_of ?D (genre m) = None" using None by (simp add: map_of_map_value)
      then have "group_rating ?mbn nr ?D = ?D @ [(genre m, [rating])]"
        by (simp add: group_rating_def nr Some dict_get_def update_absent_key)
      with abs3 have abs: "map (\<lambda>(g, a). (g, float_list ?h3 a)) ?d' = group_rating ?mbn nr ?D" by simp
      from Cons.IH [OF e3 Cons.prems(2) g3] show ?thesis
        by (simp only: step abs fold_simps)
    next
      case Some2: (Some a)
      let ?h3 = "append_float a rating ?h1"
      have step: "group_ratings_heap st by_genre (nr # per_user) h = group_ratings_heap st by_genre per_user ?h3"
        by (simp add: nr mbn Some Let_def rd1 Some2)
      from Some2 have mem: "(genre m, a) \<in> set d" by (rule map_of_SomeD)
      from refs [OF mem] obtain xs where a: "by_genre < a" "a < next_free h"
        and oa: "objs h a = Some (FloatList xs)" by auto
      have e3: "extends h0 ?h3"
        using e1 Cons.prems(2) a(1) by (intro extends_append_float) simp_all
      have "objs ?h1 a = Some (FloatList xs)" using a(2) oa by (simp add: objs_alloc_old)
      then have oa3: "objs ?h3 a = Some (FloatList (xs @ [rating]))" by (rule append_float_at)
      have other: "objs ?h3 b = objs h b" if "b \<noteq> a" "b < next_free h" for b
        using that by (simp add: append_float_other objs_alloc_old)
      have n3: "next_free ?h3 = Suc (next_free h)"
        by (simp add: next_free_append_float next_free_alloc)
      have g3: "grouped ?h3 by_genre d"
        unfolding grouped_def
      proof (intro conjI)
        show "by_genre < next_free ?h3" using bg by (simp add: n3)
        show "objs ?h3 by_genre = Some (RefDict d)" using other [of by_genre] a(1) bg od by simp
        show "distinct (map snd d)" by (rule dd)
        show "\<forall>(g, b) \<in> set d. by_genre < b \<and> b < next_free ?h3 \<and> (\<exists>xs. objs ?h3 b = Some (FloatList xs))"
        proof (clarify, intro conjI)
          fix g b assume gb: "(g, b) \<in> set d"
          show "by_genre < b" using refs [OF gb] by simp
          show "b < next_free ?h3" using refs [OF gb] by (simp add: n3)
          show "\<exists>xs. objs ?h3 b = Some (FloatList xs)"
            using refs [OF gb] oa3 other [of b] by (cases "b = a") auto
        qed
      qed
      have "map (\<lambda>(g, b). (g, float_list ?h3 b)) d
          = map (\<lambda>(g, b). (g, if b = a then xs @ [rating] else float_list h b)) d"
        using refs oa3 other by (intro map_cong) (auto simp: float_list_def)
      also have "\<dots> = AList.update (genre m) (xs @ [rating]) ?D"
        using dd Some2 by (rule update_through_ref)
      also have "\<dots> = group_rating ?mbn nr ?D"
        using Some2 oa by (simp add: group_rating_def nr Some dict_get_def map_of_map_value float_list_def)
      finally have abs: "map (\<lambda>(g, b). (g, float_list ?h3 b)) d = group_rating ?mbn nr ?D" .
      from Cons.IH [OF e3 Cons.prems(2) g3] show ?thesis
        by (simp only: step abs fold_simps)
    qed
  qed
qed

lemma genre_rows_heap_value:
  "objs h rows = Some (RowList xs) \<Longrightarrow> \<forall>(g, a) \<in> set d. a \<noteq> rows \<Longrightarrow>
   objs (genre_rows_heap rows d h) rows
     = Some (RowList (xs @ map (\<lambda>(g, a). (g, fmean (float_list h a), length (float_list h a))) d))"
proof (induction d arbitrary: h xs)
  case Nil
  then show ?case by simp
next
  case (Cons ga d)
  obtain g a where ga: "ga = (g, a)" by (cases ga)
  let ?row = "(g, fmean (float_list h a), length (float_list h a))"
  let ?h1 = "append_row rows ?row h"
  from Cons.prems(2) have rest: "\<forall>(g, a) \<in> set d. a \<noteq> rows" by simp
  have o1: "objs ?h1 rows = Some (RowList (xs @ [?row]))" using Cons.prems(1) by (rule append_row_at)
  have "map (\<lambda>(g, a). (g, fmean (float_list ?h1 a), length (float_list ?h1 a))) d
      = map (\<lambda>(g, a). (g, fmean (float_list h a), length (float_list h a))) d"
    using rest by (intro map_cong) (auto simp: float_list_def append_row_other)
  with Cons.IH [OF o1 rest] show ?case by (simp add: ga)
qed

lemma user_top_genre_heap_value:
  assumes st: "store_allocated h st"
  shows "fst (user_top_genre_heap st user_id h) = user_top_genre (store_of h st) user_id"
proof (cases "map_of (user_ratings_in h st) user_id")
  case None
  then show ?thesis
    by (simp add: user_top_genre_heap_def user_top_genre_def store_of_def map_of_map_value)
next
  case (Some per_user)
  let ?pu = "rating_dict h per_user"
  have pure_pu: "map_of (user_ratings (store_of h st)) user_id = Some ?pu"
    using Some by (simp add: store_of_def map_of_map_value)
  show ?thesis
  proof (cases "?pu = []")
    case True
    then show ?thesis
      by (simp add: user_top_genre_heap_def user_top_genre_def Some pure_pu)
  next
    case False
    let ?bg = "next_free h"
    let ?h1 = "alloc (RefDict []) h"
    let ?h2 = "group_ratings_heap st ?bg (rating_dict ?h1 per_user) ?h1"
    let ?by_genre = "fold (group_rating (movies_by_name (store_of h st))) ?pu []"
    let ?rows = "next_free ?h2"
    let ?h3 = "alloc (RowList []) ?h2"
    let ?h4 = "genre_rows_heap ?rows (ref_dict ?h3 ?bg) ?h3"
    let ?h5 = "sort_rows ?rows ?h4"
    from Some have "(user_id, per_user) \<in> set (user_ratings_in h st)" by (rule map_of_SomeD)
    then have pa: "per_user < next_free h" by (rule store_allocated_refs(3) [OF st])
    have e1: "extends h ?h1" by (intro extends_alloc extends_refl)
    have pu1: "rating_dict ?h1 per_user = ?pu" using pa by (rule extends_readers(3) [OF e1])
    have g1: "grouped ?h1 ?bg []" by (simp add: grouped_def next_free_alloc objs_alloc_new)
    from group_ratings_heap_value [OF st e1 le_refl g1, of ?pu]
    obtain d where g2: "grouped ?h2 ?bg d"
      and abs: "map (\<lambda>(g, a). (g, float_list ?h2 a)) d = ?by_genre"
      by (auto simp: pu1)
    from g2 have bg2: "?bg < next_free ?h2" and o2: "objs ?h2 ?bg = Some (RefDict d)"
      and refs: "\<And>g a. (g, a) \<in> set d \<Longrightarrow> a < next_free ?h2"
      by (auto simp: grouped_def)
    have rd2: "ref_dict ?h2 ?bg = d" using o2 by (simp add: ref_dict_def)
    have rd3: "ref_dict ?h3 ?bg = d" using o2 bg2 by (simp add: ref_dict_def objs_alloc_old)
    have empty: "d = [] \<longleftrightarrow> ?by_genre = []" using abs by auto
    have res: "user_top_genre_heap st user_id h
        = (if d = [] then (None, ?h2)
           else (case row_list ?h5 ?rows of [] \<Rightarrow> (None, ?h5) | r # _ \<Rightarrow> (Some r, ?h5)))"
      by (simp add: user_top_genre_heap_def Some False Let_def rd2)
    have "objs ?h4 ?rows = Some (RowList ([] @ map (\<lambda>(g, a). (g, fmean (float_list ?h3 a),
        length (float_list ?h3 a))) d))"
      unfolding rd3 using refs by (intro genre_rows_heap_value) (auto simp: objs_alloc_new)
    moreover have "map (\<lambda>(g, a). (g, fmean (float_list ?h3 a), length (float_list ?h3 a))) d
        = map (\<lambda>(g, a). (g, fmean (float_list ?h2 a), length (float_list ?h2 a))) d"
      using refs by (intro map_cong) (auto simp: float_list_def objs_alloc_old)
    moreover have "map (\<lambda>(g, a). (g, fmean (float_list ?h2 a), length (float_list ?h2 a))) d
        = map (\<lambda>(g, ratings). (g, fmean ratings, length ratings)) ?by_genre"
      unfolding abs [symmetric] by (simp add: comp_def case_prod_beta)
    ultimately have "objs ?h4 ?rows
        = Some (RowList (map (\<lambda>(g, ratings). (g, fmean ratings, length ratings)) ?by_genre))"
      by simp
    then have "objs ?h5 ?rows = Some (RowList (sort_key rank_key
        (map (\<lambda>(g, ratings). (g, fmean ratings, length ratings)) ?by_genre)))"
      by (rule sort_rows_at)
    then have rows: "row_list ?h5 ?rows
        = sort_key rank_key (map (\<lambda>(g, ratings). (g, fmean ratings, length ratings)) ?by_genre)"
      by (simp add: row_list_def)
    show ?thesis
      unfolding res rows
      by (simp add: user_top_genre_def pure_pu False empty Let_def split: list.splits)
  qed
qed


subsection \<open>The recommendations\<close>

text \<open>The read \<open>store.user_ratings.get(user_id, {})\<close> with its new default dictionary.\<close>

lemma get_user_default:
  assumes "store_allocated h st"
  shows "rating_dict (alloc (RatingDict []) h)
           (case map_of (user_ratings_in (alloc (RatingDict []) h) st) u of
              None \<Rightarrow> next_free h | Some a \<Rightarrow> a)
         = dict_get (user_ratings (store_of h st)) u []"
proof -
  let ?h1 = "alloc (RatingDict []) h"
  have e: "extends h ?h1" by (intro extends_alloc extends_refl)
  have ur: "user_ratings_in ?h1 st = user_ratings_in h st"
    by (rule store_allocated_fields(4) [OF assms e])
  show ?thesis
  proof (cases "map_of (user_ratings_in h st) u")
    case None
    have "rating_dict ?h1 (next_free h) = []" by (simp add: rating_dict_def alloc_def)
    with None show ?thesis by (simp add: ur store_of_def dict_get_def map_of_map_value)
  next
    case (Some a)
    then have "(u, a) \<in> set (user_ratings_in h st)" by (rule map_of_SomeD)
    then have "a < next_free h" by (rule store_allocated_refs(3) [OF assms])
    then have "rating_dict ?h1 a = rating_dict h a" by (rule extends_readers(3) [OF e])
    with Some show ?thesis by (simp add: ur store_of_def dict_get_def map_of_map_value)
  qed
qed

lemma collect_recs_heap_value:
  "objs h recs = Some (RecList xs) \<Longrightarrow>
   objs (collect_recs_heap rated g k recs ranked h) recs
     = Some (RecList (collect_recs rated g k ranked xs))"
proof (induction ranked arbitrary: h xs)
  case Nil
  then show ?case by simp
next
  case (Cons row ranked)
  obtain nm avg cnt where row: "row = (nm, avg, cnt)" by (cases row)
  let ?h1 = "append_rec recs (nm, avg, cnt, g) h"
  have o1: "objs ?h1 recs = Some (RecList (xs @ [(nm, avg, cnt, g)]))"
    using Cons.prems by (rule append_rec_at)
  then have r1: "rec_list ?h1 recs = xs @ [(nm, avg, cnt, g)]" by (simp add: rec_list_def)
  show ?case
  proof (cases "nm \<in> set rated")
    case True
    with Cons.IH [OF Cons.prems] show ?thesis by (simp add: row)
  next
    case False
    with Cons.IH [OF o1] o1 show ?thesis by (simp add: row Let_def r1)
  qed
qed

lemma recommend_for_user_heap_value:
  assumes st: "store_allocated h st"
  shows "rec_list (snd (recommend_for_user_heap st user_id k h))
           (fst (recommend_for_user_heap st user_id k h))
         = recommend_for_user (store_of h st) user_id k"
proof -
  let ?h1 = "snd (user_top_genre_heap st user_id h)"
  have top: "fst (user_top_genre_heap st user_id h) = user_top_genre (store_of h st) user_id"
    by (rule user_top_genre_heap_value [OF st])
  have e1: "extends h ?h1" by (intro extends_user_top_genre_heap extends_refl)
  have st1: "store_allocated ?h1 st" by (rule store_allocated_extends [OF st e1])
  have so1: "store_of ?h1 st = store_of h st" by (rule store_of_extends [OF st e1])
  show ?thesis
  proof (cases "user_top_genre (store_of h st) user_id")
    case None
    then show ?thesis
      by (simp add: recommend_for_user_heap_def recommend_for_user_def top Let_def rec_list_def
          objs_alloc_new)
  next
    case (Some top_row)
    let ?g = "fst top_row"
    let ?h2 = "alloc (RatingDict []) ?h1"
    let ?found = "case map_of (user_ratings_in ?h2 st) user_id of None \<Rightarrow> next_free ?h1 | Some a \<Rightarrow> a"
    let ?rated = "map fst (dict_get (user_ratings (store_of h st)) user_id [])"
    let ?h3 = "alloc (NameSet ?rated) ?h2"
    let ?ranked = "fst (rank_movies_in_genre_heap st ?g None ?h3)"
    let ?h4 = "snd (rank_movies_in_genre_heap st ?g None ?h3)"
    let ?h5 = "alloc (RecList []) ?h4"
    have found: "rating_dict ?h2 ?found = dict_get (user_ratings (store_of h st)) user_id []"
      using get_user_default [OF st1, of user_id] by (simp only: so1)
    have e3: "extends ?h1 ?h3" by (intro extends_alloc extends_refl)
    have st3: "store_allocated ?h3 st" by (rule store_allocated_extends [OF st1 e3])
    have so3: "store_of ?h3 st = store_of h st"
      using store_of_extends [OF st1 e3] by (simp only: so1)
    have ranked: "row_list ?h4 ?ranked = rank_movies_in_genre (store_of h st) ?g None"
      using rank_movies_in_genre_heap_value(1) [OF st3, of ?g None] by (simp only: so3)
    have ra: "?ranked < next_free ?h4" by (rule rank_movies_in_genre_heap_value(2) [OF st3])
    have e4: "extends ?h3 ?h4" by (intro extends_rank_movies_in_genre_heap extends_refl)
    have e5: "extends ?h3 ?h5" using e4 by (rule extends_alloc)
    have "names_of ?h5 (next_free ?h2) = names_of ?h3 (next_free ?h2)"
      by (rule extends_readers(4) [OF e5]) (simp add: next_free_alloc)
    then have rated: "names_of ?h5 (next_free ?h2) = ?rated"
      by (simp add: names_of_def objs_alloc_new)
    have ranked5: "row_list ?h5 ?ranked = rank_movies_in_genre (store_of h st) ?g None"
      using ra ranked by (simp add: row_list_def objs_alloc_old)
    have res: "recommend_for_user_heap st user_id k h
        = (next_free ?h4, collect_recs_heap (names_of ?h5 (next_free ?h2)) ?g k (next_free ?h4)
             (row_list ?h5 ?ranked) ?h5)"
      by (simp add: recommend_for_user_heap_def top Some Let_def found)
    have "objs ?h5 (next_free ?h4) = Some (RecList [])" by (rule objs_alloc_new)
    then have "objs (collect_recs_heap ?rated ?g k (next_free ?h4)
        (rank_movies_in_genre (store_of h st) ?g None) ?h5) (next_free ?h4)
        = Some (RecList (collect_recs ?rated ?g k (rank_movies_in_genre (store_of h st) ?g None) []))"
      by (rule collect_recs_heap_value)
    then show ?thesis
      unfolding res rated ranked5
      by (simp add: rec_list_def recommend_for_user_def Some Let_def)
  qed
qed

subsection \<open>The layout of a store\<close>

lemma alloc_values_extends: "extends h0 h \<Longrightarrow> extends h0 (snd (alloc_values mk kvs h))"
proof (induction kvs arbitrary: h)
  case Nil
  then show ?case by simp
next
  case (Cons kv kvs)
  obtain k v where kv: "kv = (k, v)" by (cases kv)
  from Cons.prems have "extends h0 (alloc (mk v) h)" by (rule extends_alloc)
  then show ?case by (simp add: kv Cons.IH)
qed

lemma alloc_values_refs:
  "(k, a) \<in> set (fst (alloc_values mk kvs h)) \<Longrightarrow> a < next_free (snd (alloc_values mk kvs h))"
proof (induction kvs arbitrary: h)
  case Nil
  then show ?case by simp
next
  case (Cons kv kvs)
  obtain k' v where kv: "kv = (k', v)" by (cases kv)
  from Cons.prems consider "a = next_free h" | "(k, a) \<in> set (fst (alloc_values mk kvs (alloc (mk v) h)))"
    by (auto simp: kv)
  then show ?case
  proof cases
    case 1
    have "extends (alloc (mk v) h) (snd (alloc_values mk kvs (alloc (mk v) h)))"
      by (intro alloc_values_extends extends_refl)
    from extends_next_free [OF this] 1 show ?thesis by (simp add: kv next_free_alloc)
  next
    case 2
    then show ?thesis by (simp add: kv Cons.IH)
  qed
qed

lemma alloc_values_read:
  assumes rd: "\<And>h a v. objs h a = Some (mk v) \<Longrightarrow> rd h a = v"
  shows "map (\<lambda>(k, a). (k, rd (snd (alloc_values mk kvs h)) a)) (fst (alloc_values mk kvs h)) = kvs"
proof (induction kvs arbitrary: h)
  case Nil
  then show ?case by simp
next
  case (Cons kv kvs)
  obtain k v where kv: "kv = (k, v)" by (cases kv)
  let ?h1 = "alloc (mk v) h"
  have "extends ?h1 (snd (alloc_values mk kvs ?h1))" by (intro alloc_values_extends extends_refl)
  then have "objs (snd (alloc_values mk kvs ?h1)) (next_free h) = objs ?h1 (next_free h)"
    by (rule extends_objs) (simp add: next_free_alloc)
  then have "rd (snd (alloc_values mk kvs ?h1)) (next_free h) = v"
    by (intro rd) (simp add: objs_alloc_new)
  then show ?case by (simp add: kv Cons.IH)
qed


lemma store_heap_layout:
  shows store_heap_allocated: "store_allocated (snd (store_heap s)) (fst (store_heap s))"
    and store_of_store_heap: "store_of (snd (store_heap s)) (fst (store_heap s)) = s"
proof -
  define g where "g = alloc_values NameSet (movies_by_genre s) empty_heap"
  define r where "r = alloc_values FloatList (ratings_by_movie s) (snd g)"
  define u where "u = alloc_values RatingDict (user_ratings s) (snd r)"
  define h2 where "h2 = alloc (MovieDict (movies_by_name s)) (snd u)"
  define h3 where "h3 = alloc (RefDict (fst g)) h2"
  define h4 where "h4 = alloc (RefDict (fst r)) h3"
  define h5 where "h5 = alloc (RefDict (fst u)) h4"
  define h6 where "h6 = alloc (DataStoreObj (next_free (snd u)) (next_free h2) (next_free h3) (next_free h4)) h5"
  have sh: "store_heap s = (next_free h5, h6)"
    by (simp add: store_heap_def Let_def g_def r_def u_def h2_def h3_def h4_def h5_def h6_def)
  have nf: "next_free h2 = Suc (next_free (snd u))" "next_free h3 = Suc (next_free h2)"
    "next_free h4 = Suc (next_free h3)" "next_free h5 = Suc (next_free h4)"
    "next_free h6 = Suc (next_free h5)"
    by (simp_all add: h2_def h3_def h4_def h5_def h6_def next_free_alloc)
  have ost: "objs h6 (next_free h5)
      = Some (DataStoreObj (next_free (snd u)) (next_free h2) (next_free h3) (next_free h4))"
    by (simp add: h6_def objs_alloc_new)
  have e5: "extends h5 h6" unfolding h6_def by (intro extends_alloc extends_refl)
  have e4: "extends h4 h6" unfolding h6_def h5_def by (intro extends_alloc extends_refl)
  have e3: "extends h3 h6" unfolding h6_def h5_def h4_def by (intro extends_alloc extends_refl)
  have e2: "extends h2 h6" unfolding h6_def h5_def h4_def h3_def by (intro extends_alloc extends_refl)
  have "objs h2 (next_free (snd u)) = Some (MovieDict (movies_by_name s))"
    unfolding h2_def by (rule objs_alloc_new)
  then have omn: "objs h6 (next_free (snd u)) = Some (MovieDict (movies_by_name s))"
    using extends_objs [OF e2, of "next_free (snd u)"] by (simp add: nf)
  have "objs h3 (next_free h2) = Some (RefDict (fst g))"
    unfolding h3_def by (rule objs_alloc_new)
  then have omg: "objs h6 (next_free h2) = Some (RefDict (fst g))"
    using extends_objs [OF e3, of "next_free h2"] by (simp add: nf)
  have "objs h4 (next_free h3) = Some (RefDict (fst r))"
    unfolding h4_def by (rule objs_alloc_new)
  then have orm: "objs h6 (next_free h3) = Some (RefDict (fst r))"
    using extends_objs [OF e4, of "next_free h3"] by (simp add: nf)
  have "objs h5 (next_free h4) = Some (RefDict (fst u))"
    unfolding h5_def by (rule objs_alloc_new)
  then have our: "objs h6 (next_free h4) = Some (RefDict (fst u))"
    using extends_objs [OF e5, of "next_free h4"] by (simp add: nf)
  have eu: "extends (snd u) h6"
    unfolding h6_def h5_def h4_def h3_def h2_def by (intro extends_alloc extends_refl)
  have er: "extends (snd r) (snd u)"
    unfolding u_def by (intro alloc_values_extends extends_refl)
  have eg: "extends (snd g) (snd r)"
    unfolding r_def by (intro alloc_values_extends extends_refl)
  have er6: "extends (snd r) h6" using er eu by (rule extends_trans)
  have eg6: "extends (snd g) h6" using eg er6 by (rule extends_trans)
  have ag: "a < next_free (snd g)" if "(k, a) \<in> set (fst g)" for k a
    using that unfolding g_def by (rule alloc_values_refs)
  have ar: "a < next_free (snd r)" if "(k, a) \<in> set (fst r)" for k a
    using that unfolding r_def by (rule alloc_values_refs)
  have au: "a < next_free (snd u)" if "(k, a) \<in> set (fst u)" for k a
    using that unfolding u_def by (rule alloc_values_refs)
  have fields: "movies_by_name_in h6 (next_free h5) = movies_by_name s"
    "movies_by_genre_in h6 (next_free h5) = fst g"
    "ratings_by_movie_in h6 (next_free h5) = fst r"
    "user_ratings_in h6 (next_free h5) = fst u"
    by (simp_all add: movies_by_name_in_def movies_by_genre_in_def ratings_by_movie_in_def
        user_ratings_in_def ost movie_dict_def ref_dict_def omn omg orm our)
  have "map (\<lambda>(k, a). (k, names_of h6 a)) (fst g) = map (\<lambda>(k, a). (k, names_of (snd g) a)) (fst g)"
    using ag extends_readers(4) [OF eg6] by (intro map_cong) auto
  also have "\<dots> = movies_by_genre s"
    unfolding g_def by (rule alloc_values_read) (simp add: names_of_def)
  finally have mg: "map (\<lambda>(k, a). (k, names_of h6 a)) (fst g) = movies_by_genre s" .
  have "map (\<lambda>(k, a). (k, float_list h6 a)) (fst r) = map (\<lambda>(k, a). (k, float_list (snd r) a)) (fst r)"
    using ar extends_readers(5) [OF er6] by (intro map_cong) auto
  also have "\<dots> = ratings_by_movie s"
    unfolding r_def by (rule alloc_values_read) (simp add: float_list_def)
  finally have rm: "map (\<lambda>(k, a). (k, float_list h6 a)) (fst r) = ratings_by_movie s" .
  have "map (\<lambda>(k, a). (k, rating_dict h6 a)) (fst u) = map (\<lambda>(k, a). (k, rating_dict (snd u) a)) (fst u)"
    using au extends_readers(3) [OF eu] by (intro map_cong) auto
  also have "\<dots> = user_ratings s"
    unfolding u_def by (rule alloc_values_read) (simp add: rating_dict_def)
  finally have ur: "map (\<lambda>(k, a). (k, rating_dict h6 a)) (fst u) = user_ratings s" .
  show "store_of (snd (store_heap s)) (fst (store_heap s)) = s"
    by (simp add: sh store_of_def fields mg rm ur)
  have lg: "next_free (snd g) \<le> next_free (snd u)"
    using extends_next_free [OF eg] extends_next_free [OF er] by linarith
  have lr: "next_free (snd r) \<le> next_free (snd u)" using er by (rule extends_next_free)
  have lt: "next_free (snd u) < next_free h6" "next_free h2 < next_free h6"
    "next_free h3 < next_free h6" "next_free h4 < next_free h6" "next_free h5 < next_free h6"
    by (simp_all add: nf)
  have "list_all (\<lambda>(k, a). a < next_free h6) (fst g)"
    using ag lg lt(1) by (fastforce simp: list_all_iff)
  moreover have "list_all (\<lambda>(k, a). a < next_free h6) (fst r)"
    using ar lr lt(1) by (fastforce simp: list_all_iff)
  moreover have "list_all (\<lambda>(k, a). a < next_free h6) (fst u)"
    using au lt(1) by (fastforce simp: list_all_iff)
  ultimately show "store_allocated (snd (store_heap s)) (fst (store_heap s))"
    by (simp add: sh store_allocated_def ost ref_dict_def omg orm our lt)
qed

section \<open>The store after a query\<close>

text \<open>The fixture laid out on the heap: the store object is at address 15, the set of the
  genre \<open>Action\<close> at address 0 and the ratings of \<open>Alpha (2001)\<close> at address 3. The heap
  queries return on it the rows that the functions on stores return.\<close>

lemma fixture_heap_allocated: "store_allocated fixture_heap fixture_at"
  unfolding fixture_heap_def fixture_at_def by (rule store_heap_allocated)

lemma fixture_heap_store: "store_of fixture_heap fixture_at = fixture_store"
  unfolding fixture_heap_def fixture_at_def by (rule store_of_store_heap)

lemma fixture_heap_first:
  "0 < next_free fixture_heap \<and> objs fixture_heap 0 = Some (NameSet [''Alpha (2001)'', ''Bravo (1999)''])"
  by code_simp

lemma fixture_heap_queries:
  "row_list (snd (rank_movies_by_average_heap fixture_at None (Some 2) fixture_heap))
     (fst (rank_movies_by_average_heap fixture_at None (Some 2) fixture_heap))
   = [(''Alpha (2001)'', 9/2, 2), (''Foxtrot (2007)'', 9/2, 2)]"
  "fst (user_top_genre_heap fixture_at ''u1'' fixture_heap) = Some (''Drama'', 5, 1)"
  "rec_list (snd (recommend_for_user_heap fixture_at ''u1'' 3 fixture_heap))
     (fst (recommend_for_user_heap fixture_at ''u1'' 3 fixture_heap))
   = [(''Delta (2011)'', 3, 1, ''Drama'')]"
  by code_simp+

text \<open>An \<open>append\<close> to a list of the store is seen in the store that is read back: the
  store on the heap can be changed in place, and the loaders and \<open>clear\<close> replace the
  indexes of the store they are given.\<close>

lemma change_in_place_reaches_store:
  "objs fixture_heap 3 = Some (FloatList [5, 4])"
  "dict_get (ratings_by_movie (store_of (append_float 3 1 fixture_heap) fixture_at)) ''Alpha (2001)'' []
     = [5, 4, 1]"
  by code_simp+

lemma loaders_and_clear_change_store:
  "map fst (movies_by_name (snd (load_movies_file fixture_movies empty_store)))
     = [''Alpha (2001)'', ''Bravo (1999)'', ''Charlie (2010)'', ''Delta (2011)'', ''Echo (2005)'',
        ''Foxtrot (2007)'']"
  "movies_by_name empty_store = []"
  "clear fixture_store = empty_store"
  by code_simp+

text \<open>
  Claim C9. Take any heap \<open>h\<close> that holds a store at the address \<open>st\<close>, with the objects of the
  store allocated, and any object address \<open>a\<close> in use. After each of the five queries
  \<open>rank_movies_by_average\<close>, \<open>rank_movies_in_genre\<close>, \<open>rank_genres_by_popularity\<close>,
  \<open>user_top_genre\<close> and \<open>recommend_for_user\<close>, called with any arguments, the object at \<open>a\<close>
  is the object it was before the call, and the four indexes read from the store at \<open>st\<close>
  are the ones read before the call: the lists and dictionaries that a query appends to,
  sorts or stores into are the ones that the query itself created.
\<close>

theorem queries_leave_store_objects:
  assumes "store_allocated h st" and "a < next_free h"
  shows "(store_of (snd (rank_movies_by_average_heap st movie_names n h)) st = store_of h st
          \<and> objs (snd (rank_movies_by_average_heap st movie_names n h)) a = objs h a)
       \<and> (store_of (snd (rank_movies_in_genre_heap st g n h)) st = store_of h st
          \<and> objs (snd (rank_movies_in_genre_heap st g n h)) a = objs h a)
       \<and> (store_of (snd (rank_genres_by_popularity_heap st n h)) st = store_of h st
          \<and> objs (snd (rank_genres_by_popularity_heap st n h)) a = objs h a)
       \<and> (store_of (snd (user_top_genre_heap st user_id h)) st = store_of h st
          \<and> objs (snd (user_top_genre_heap st user_id h)) a = objs h a)
       \<and> (store_of (snd (recommend_for_user_heap st user_id k h)) st = store_of h st
          \<and> objs (snd (recommend_for_user_heap st user_id k h)) a = objs h a)"
proof -
  have frame: "store_of h' st = store_of h st \<and> objs h' a = objs h a" if "extends h h'" for h'
    using store_of_extends [OF assms(1) that] extends_objs [OF that assms(2)] by simp
  have r: "extends h h" by (rule extends_refl)
  show ?thesis
    by (intro conjI frame [THEN conjunct1] frame [THEN conjunct2]
        extends_rank_movies_by_average_heap extends_rank_movies_in_genre_heap
        extends_rank_genres_by_popularity_heap extends_user_top_genre_heap
        extends_recommend_for_user_heap r)
qed

theorem queries_leave_store_objects_witness:
  "store_allocated fixture_heap fixture_at \<and> 0 < next_free fixture_heap
   \<and> store_of (snd (rank_movies_by_average_heap fixture_at None (Some 2) fixture_heap)) fixture_at = fixture_store
   \<and> objs (snd (rank_movies_in_genre_heap fixture_at ''Action'' (Some 2) fixture_heap)) 0
       = Some (NameSet [''Alpha (2001)'', ''Bravo (1999)''])
   \<and> store_of (snd (rank_genres_by_popularity_heap fixture_at (Some 2) fixture_heap)) fixture_at = fixture_store
   \<and> store_of (snd (user_top_genre_heap fixture_at ''u1'' fixture_heap)) fixture_at = fixture_store
   \<and> store_of (snd (recommend_for_user_heap fixture_at ''u1'' 3 fixture_heap)) fixture_at = fixture_store"
  using queries_leave_store_objects [OF fixture_heap_allocated conjunct1 [OF fixture_heap_first],
      of None "Some 2" "''Action''" "''u1''" 3]
  by (simp add: fixture_heap_allocated fixture_heap_store fixture_heap_first)



end
